theory Spec2Isabelle
  imports Main "HOL-Library.Char_ord" "HOL-Library.List_Lexorder" "HOL-Library.Code_Target_Nat"
begin

section \<open>JavaScript strings and numbers used by App.tsx\<close>

text \<open>
  Strings are modelled as ASCII character lists. The built-in string methods that
  \<^verbatim>\<open>App.tsx\<close> calls are given here on that alphabet: \<^verbatim>\<open>trim\<close> and the regular
  expression class \<^verbatim>\<open>\s\<close> see the six ASCII white-space characters,
  \<^verbatim>\<open>toUpperCase\<close>/\<^verbatim>\<open>toLowerCase\<close> move the 26 letters, \<^verbatim>\<open>\d\<close> is a decimal digit.
  The field \<^verbatim>\<open>amount: number\<close> is modelled on the whole numbers (type \<open>int\<close>), for
  which \<^verbatim>\<open>String(n)\<close> is the decimal numeral with a leading minus sign for negative
  values.
\<close>

definition is_space :: "char \<Rightarrow> bool" where
  "is_space c = (c \<in> set [CHR '' '', CHR 0x09, CHR 0x0A, CHR 0x0B, CHR 0x0C, CHR 0x0D])"

definition is_digit :: "char \<Rightarrow> bool" where
  "is_digit c = (c \<in> set ''0123456789'')"

definition lower_letters :: string where
  "lower_letters = ''abcdefghijklmnopqrstuvwxyz''"

definition upper_letters :: string where
  "upper_letters = ''ABCDEFGHIJKLMNOPQRSTUVWXYZ''"

definition is_letter :: "char \<Rightarrow> bool" where
  "is_letter c = (c \<in> set lower_letters \<or> c \<in> set upper_letters)"

definition upper_char :: "char \<Rightarrow> char" where
  "upper_char c = (case map_of (zip lower_letters upper_letters) c of Some u \<Rightarrow> u | None \<Rightarrow> c)"

definition lower_char :: "char \<Rightarrow> char" where
  "lower_char c = (case map_of (zip upper_letters lower_letters) c of Some l \<Rightarrow> l | None \<Rightarrow> c)"

definition toUpperCase :: "string \<Rightarrow> string" where
  "toUpperCase s = map upper_char s"

definition toLowerCase :: "string \<Rightarrow> string" where
  "toLowerCase s = map lower_char s"

text \<open>\<^verbatim>\<open>s.trim()\<close>: white space is removed at both ends.\<close>

definition trim :: "string \<Rightarrow> string" where
  "trim s = rev (dropWhile is_space (rev (dropWhile is_space s)))"

text \<open>\<^verbatim>\<open>s.startsWith(p)\<close> and \<^verbatim>\<open>s.includes(p)\<close>.\<close>

fun startsWith :: "string \<Rightarrow> string \<Rightarrow> bool" where
  "startsWith s [] = True"
| "startsWith [] (p # ps) = False"
| "startsWith (c # cs) (p # ps) = (c = p \<and> startsWith cs ps)"

fun str_includes :: "string \<Rightarrow> string \<Rightarrow> bool" where
  "str_includes [] p = (p = [])"
| "str_includes (c # cs) p = (startsWith (c # cs) p \<or> str_includes cs p)"

text \<open>\<^verbatim>\<open>s.split('-')\<close>: the pieces between hyphens; a string without hyphen is one piece.\<close>

fun split_hyphen :: "string \<Rightarrow> string list" where
  "split_hyphen [] = [[]]"
| "split_hyphen (c # cs) =
     (if c = CHR ''-'' then [] # split_hyphen cs
      else (case split_hyphen cs of
              [] \<Rightarrow> [[c]]
            | p # ps \<Rightarrow> (c # p) # ps))"

text \<open>\<^verbatim>\<open>parts.join("_")\<close>; the result for no parts is the empty string.\<close>

fun join_underscore :: "string list \<Rightarrow> string" where
  "join_underscore [] = []"
| "join_underscore [p] = p"
| "join_underscore (p # q # ps) = p @ ''_'' @ join_underscore (q # ps)"

text \<open>\<^verbatim>\<open>String(n)\<close> for a whole number, and the value of a digit string.\<close>

definition digit_char :: "nat \<Rightarrow> char" where
  "digit_char d = char_of (48 + d)"

function show_nat :: "int \<Rightarrow> string" where
  "show_nat n = (if n < 10 then [digit_char (nat n)]
                 else show_nat (n div 10) @ [digit_char (nat (n mod 10))])"
  by pat_completeness auto
termination
  by (relation "measure nat") auto

declare show_nat.simps [simp del]

definition numToString :: "int \<Rightarrow> string" where
  "numToString n = (if n < 0 then CHR ''-'' # show_nat (- n) else show_nat n)"

definition digit_val :: "char \<Rightarrow> nat" where
  "digit_val c = of_char c - 48"

definition digitsValue :: "string \<Rightarrow> int" where
  "digitsValue s = foldl (\<lambda>a c. 10 * a + int (digit_val c)) 0 s"

text \<open>\<^verbatim>\<open>s.padStart(2, '0')\<close> and \<^verbatim>\<open>s.slice(-2)\<close>.\<close>

definition padStart2 :: "string \<Rightarrow> string" where
  "padStart2 s = replicate (2 - length s) CHR ''0'' @ s"

definition slice_last2 :: "string \<Rightarrow> string" where
  "slice_last2 s = drop (length s - 2) s"

section \<open>Dates\<close>

text \<open>
  A \<^verbatim>\<open>Date\<close> object is either invalid (\<open>None\<close>) or a calendar day: year, month
  (0 to 11, as \<^verbatim>\<open>getMonth\<close> counts) and day of the month. \<^verbatim>\<open>new Date(s)\<close> is
  modelled for the documented format of \<^verbatim>\<open>paymentDate\<close>, \<^verbatim>\<open>YYYY-MM-DD\<close>, which
  JavaScript reads as midnight UTC of that day; every other string is an invalid date
  here. The local-time getters (\<^verbatim>\<open>getFullYear\<close>, \<^verbatim>\<open>getMonth\<close>, \<^verbatim>\<open>getDate\<close>) are
  modelled for a host whose local calendar day at midnight UTC is the UTC day (UTC itself
  and the zones ahead of it, such as West Africa Time), and month names for an English
  host locale.
\<close>

type_synonym jsdate = "(int \<times> nat \<times> nat) option"

definition isLeap :: "int \<Rightarrow> bool" where
  "isLeap y = (y mod 4 = 0 \<and> (y mod 100 \<noteq> 0 \<or> y mod 400 = 0))"

definition daysInMonth :: "int \<Rightarrow> nat \<Rightarrow> nat" where
  "daysInMonth y m =
     (if m = 1 then (if isLeap y then 29 else 28)
      else if m \<in> set [3, 5, 8, 10] then 30 else 31)"

definition newDate :: "string \<Rightarrow> jsdate" where
  "newDate s =
     (if length s = 10 \<and> s ! 4 = CHR ''-'' \<and> s ! 7 = CHR ''-''
         \<and> list_all is_digit (take 4 s) \<and> list_all is_digit (take 2 (drop 5 s))
         \<and> list_all is_digit (drop 8 s)
      then (let y = digitsValue (take 4 s);
                m = nat (digitsValue (take 2 (drop 5 s)));
                d = nat (digitsValue (drop 8 s))
            in if 1 \<le> m \<and> m \<le> 12 \<and> 1 \<le> d \<and> d \<le> daysInMonth y (m - 1)
               then Some (y, m - 1, d) else None)
      else None)"

text \<open>
  \<^verbatim>\<open>getTime()\<close>: milliseconds since 1970-01-01 UTC, with the day number of the
  ECMAScript specification (\<^verbatim>\<open>DayFromYear\<close>); \<open>None\<close> stands for \<^verbatim>\<open>NaN\<close>.
\<close>

definition dayFromYear :: "int \<Rightarrow> int" where
  "dayFromYear y = 365 * (y - 1970) + (y - 1969) div 4 - (y - 1901) div 100 + (y - 1601) div 400"

definition daysBeforeMonth :: "int \<Rightarrow> nat \<Rightarrow> nat" where
  "daysBeforeMonth y m = sum_list (map (daysInMonth y) [0..<m])"

definition getTime :: "jsdate \<Rightarrow> int option" where
  "getTime d =
     (case d of None \<Rightarrow> None
      | Some (y, m, dd) \<Rightarrow> Some ((dayFromYear y + int (daysBeforeMonth y m) + int dd - 1) * 86400000))"

text \<open>
  \<^verbatim>\<open>date.setMonth(k)\<close> keeps the day of the month and moves to month \<open>k\<close> of the same
  year (\<open>k = -1\<close> is December of the year before); a day beyond the end of that month
  runs over into the following month (\<^verbatim>\<open>MakeDay\<close>).
\<close>

function rollDay :: "int \<Rightarrow> nat \<Rightarrow> nat \<Rightarrow> int \<times> nat \<times> nat" where
  "rollDay y m d =
     (if daysInMonth y m < d
      then rollDay (if m = 11 then y + 1 else y) (if m = 11 then 0 else m + 1) (d - daysInMonth y m)
      else (y, m, d))"
  by pat_completeness auto
termination
  by (relation "measure (\<lambda>(y, m, d). d)") (auto simp: daysInMonth_def)

declare rollDay.simps [simp del]

definition setMonth :: "jsdate \<Rightarrow> int \<Rightarrow> jsdate" where
  "setMonth date k =
     (case date of None \<Rightarrow> None
      | Some (y, m, d) \<Rightarrow> Some (rollDay (y + k div 12) (nat (k mod 12)) d))"

definition getMonth :: "jsdate \<Rightarrow> nat option" where
  "getMonth date = map_option (\<lambda>(y, m, d). m) date"

definition getFullYear :: "jsdate \<Rightarrow> int option" where
  "getFullYear date = map_option (\<lambda>(y, m, d). y) date"

definition getDate :: "jsdate \<Rightarrow> nat option" where
  "getDate date = map_option (\<lambda>(y, m, d). d) date"

definition monthNames :: "string list" where
  "monthNames = [''January'', ''February'', ''March'', ''April'', ''May'', ''June'', ''July'',
                 ''August'', ''September'', ''October'', ''November'', ''December'']"

text \<open>
  \<^verbatim>\<open>date.toLocaleString('default', { month: 'short' })\<close> and the same with
  \<^verbatim>\<open>'long'\<close>; an invalid date prints as \<^verbatim>\<open>Invalid Date\<close>.
\<close>

definition monthLong :: "jsdate \<Rightarrow> string" where
  "monthLong date = (case date of None \<Rightarrow> ''Invalid Date'' | Some (y, m, d) \<Rightarrow> monthNames ! m)"

definition monthShort :: "jsdate \<Rightarrow> string" where
  "monthShort date = (case date of None \<Rightarrow> ''Invalid Date'' | Some (y, m, d) \<Rightarrow> take 3 (monthNames ! m))"

text \<open>\<^verbatim>\<open>String(x)\<close> of a getter's result: \<^verbatim>\<open>NaN\<close> for an invalid date.\<close>

definition optNumToString :: "int option \<Rightarrow> string" where
  "optNumToString x = (case x of None \<Rightarrow> ''NaN'' | Some n \<Rightarrow> numToString n)"

section \<open>Data model\<close>

text \<open>
  \<^verbatim>\<open>interface ScannerResult\<close>. A field that the parsed JSON leaves out is the empty
  string here (for \<^verbatim>\<open>amount\<close>, zero): the tests the code makes on these fields
  (\<^verbatim>\<open>!data.paymentPeriod\<close>, \<^verbatim>\<open>result.companyName\<close>, \<^verbatim>\<open>row.taxType\<close>, ...) are
  truthiness tests, which an empty string and a missing field answer alike.
\<close>

record ScannerResult =
  companyName :: string
  paymentDate :: string
  paymentDateDisplay :: string
  paymentPeriod :: string
  receiptNumber :: string
  taxType :: string
  amount :: int

datatype msg_type = error | success | warning

record message =
  msgText :: string
  msgType :: msg_type

text \<open>
  What reading a file and calling the extraction service comes to: an exception (file
  reader, network, quota, \<^verbatim>\<open>JSON.parse\<close>, a response on which a field access throws)
  with its message, or the parsed JSON object.
\<close>

datatype reply = Threw string | Parsed ScannerResult

text \<open>A selected \<^verbatim>\<open>File\<close>, together with the reply the service gives for it.\<close>

record File =
  name :: string
  size_bytes :: nat
  mimeType :: string
  serviceReply :: reply

text \<open>The component state (\<^verbatim>\<open>useState\<close>); \<open>ai\<close> tells whether the client exists.\<close>

record app_state =
  ai :: bool
  selectedFiles :: "File list"
  scannerIsLoading :: bool
  scannerResults :: "ScannerResult list"
  scannerMessages :: "message list"
  showDownloadModal :: bool

section \<open>callScannerGeminiAPI\<close>

text \<open>
  Lines 154 to 164: after \<^verbatim>\<open>JSON.parse\<close>, a missing \<^verbatim>\<open>paymentPeriod\<close> is derived from
  \<^verbatim>\<open>paymentDate\<close> by \<^verbatim>\<open>setMonth(getMonth() - 1)\<close>, and \<^verbatim>\<open>paymentDateDisplay\<close> is
  written from \<^verbatim>\<open>paymentDate\<close>.
\<close>

definition derivePeriod :: "string \<Rightarrow> string" where
  "derivePeriod pd =
     (let date = newDate pd;
          date' = (case getMonth date of None \<Rightarrow> None | Some m \<Rightarrow> setMonth date (int m - 1))
      in monthShort date' @ ''-'' @ slice_last2 (optNumToString (getFullYear date')))"

definition displayDate :: "string \<Rightarrow> string" where
  "displayDate pd =
     (let date = newDate pd
      in padStart2 (optNumToString (map_option int (getDate date))) @ ''/''
         @ padStart2 (optNumToString (map_option (\<lambda>m. int m + 1) (getMonth date))) @ ''/''
         @ optNumToString (getFullYear date))"

definition normalizeData :: "ScannerResult \<Rightarrow> ScannerResult" where
  "normalizeData data =
     (let data1 = (if paymentPeriod data = [] \<and> paymentDate data \<noteq> []
                   then data\<lparr>paymentPeriod := derivePeriod (paymentDate data)\<rparr> else data);
          data2 = (if paymentDate data1 \<noteq> []
                   then data1\<lparr>paymentDateDisplay := displayDate (paymentDate data1)\<rparr> else data1)
      in data2)"

definition callScannerGeminiAPI :: "reply \<Rightarrow> string + ScannerResult" where
  "callScannerGeminiAPI r = (case r of Threw e \<Rightarrow> Inl e | Parsed data \<Rightarrow> Inr (normalizeData data))"

section \<open>processReceipts\<close>

definition maxSize :: nat where
  "maxSize = 19 * 1024 * 1024"

definition acceptedTypes :: "string list" where
  "acceptedTypes = [''image/png'', ''image/jpeg'', ''image/webp'', ''application/pdf'']"

text \<open>The deduplication key, \<^verbatim>\<open>`${result.receiptNumber.trim()}-${result.amount}`\<close>.\<close>

definition uniqueKey :: "ScannerResult \<Rightarrow> string" where
  "uniqueKey result = trim (receiptNumber result) @ ''-'' @ numToString (amount result)"

text \<open>
  One turn of the loop over \<^verbatim>\<open>selectedFiles\<close>. The loop state is the set
  \<^verbatim>\<open>uniqueKeys\<close>, the array \<^verbatim>\<open>results\<close> and the messages set so far.
\<close>

type_synonym loop_state = "string set \<times> ScannerResult list \<times> message list"

text \<open>The five messages of the loop, for a file.\<close>

definition tooLargeMessage :: "File \<Rightarrow> message" where
  "tooLargeMessage file = \<lparr>msgText = ''File skipped (too large): '' @ name file, msgType = warning\<rparr>"

definition wrongTypeMessage :: "File \<Rightarrow> message" where
  "wrongTypeMessage file =
     \<lparr>msgText = ''Skipped: '' @ name file @ ''. Scanner accepts PNG, JPG, WebP, or PDF.'',
      msgType = warning\<rparr>"

definition failedMessage :: "File \<Rightarrow> string \<Rightarrow> message" where
  "failedMessage file e =
     \<lparr>msgText = ''Failed to process file: '' @ name file @ ''. '' @ e, msgType = error\<rparr>"

definition duplicateMessage :: "ScannerResult \<Rightarrow> File \<Rightarrow> message" where
  "duplicateMessage result file =
     \<lparr>msgText = ''Duplicate Receipt skipped: '' @ receiptNumber result @ '' in '' @ name file,
      msgType = warning\<rparr>"

definition successMessage :: "File \<Rightarrow> message" where
  "successMessage file = \<lparr>msgText = ''Successfully processed: '' @ name file, msgType = success\<rparr>"

text \<open>
  The body of the loop. An exception of the call, and the \<^verbatim>\<open>Error\<close> thrown for a
  result without company name, both end in the \<^verbatim>\<open>catch\<close> block.
\<close>

definition processFile :: "File \<Rightarrow> loop_state \<Rightarrow> loop_state" where
  "processFile file st =
     (case st of (uniqueKeys, results, msgs) \<Rightarrow>
        if maxSize < size_bytes file
        then (uniqueKeys, results, msgs @ [tooLargeMessage file])
        else if mimeType file \<notin> set acceptedTypes
        then (uniqueKeys, results, msgs @ [wrongTypeMessage file])
        else (case callScannerGeminiAPI (serviceReply file) of
                Inl e \<Rightarrow> (uniqueKeys, results, msgs @ [failedMessage file e])
              | Inr result \<Rightarrow>
                  if companyName result \<noteq> []
                  then (if uniqueKey result \<in> uniqueKeys
                        then (uniqueKeys, results, msgs @ [duplicateMessage result file])
                        else (insert (uniqueKey result) uniqueKeys, results @ [result],
                              msgs @ [successMessage file]))
                  else (uniqueKeys, results,
                        msgs @ [failedMessage file ''AI did not return valid data.''])))"

fun processLoop :: "File list \<Rightarrow> loop_state \<Rightarrow> loop_state" where
  "processLoop [] st = st"
| "processLoop (file # files) st = processLoop files (processFile file st)"

text \<open>
  \<^verbatim>\<open>Array.prototype.sort(compareFn)\<close> is a stable sort. It is modelled by insertion with
  the comparator's verdict; a \<^verbatim>\<open>NaN\<close> verdict counts as zero. The comparator of
  \<^verbatim>\<open>App.tsx\<close> subtracts the two times, which gives \<^verbatim>\<open>NaN\<close> when one of the dates is
  invalid; then it is no consistent ordering and the language leaves the resulting order
  to the implementation, so the model speaks for the lists whose dates are all valid.
\<close>

definition compareDates :: "ScannerResult \<Rightarrow> ScannerResult \<Rightarrow> int" where
  "compareDates a b =
     (case (getTime (newDate (paymentDate a)), getTime (newDate (paymentDate b))) of
        (Some ta, Some tb) \<Rightarrow> ta - tb
      | _ \<Rightarrow> 0)"

fun insertBy :: "('a \<Rightarrow> 'a \<Rightarrow> int) \<Rightarrow> 'a \<Rightarrow> 'a list \<Rightarrow> 'a list" where
  "insertBy cmp x [] = [x]"
| "insertBy cmp x (y # ys) = (if cmp x y \<le> 0 then x # y # ys else y # insertBy cmp x ys)"

definition arraySort :: "('a \<Rightarrow> 'a \<Rightarrow> int) \<Rightarrow> 'a list \<Rightarrow> 'a list" where
  "arraySort cmp xs = foldr (insertBy cmp) xs []"

text \<open>The array \<^verbatim>\<open>results\<close> as it stands when the loop ends, before it is sorted.\<close>

definition admitted :: "File list \<Rightarrow> ScannerResult list" where
  "admitted files = fst (snd (processLoop files ({}, [], [])))"

definition processReceipts :: "app_state \<Rightarrow> app_state" where
  "processReceipts st =
     (if \<not> ai st
      then st\<lparr>scannerMessages := [\<lparr>msgText = ''AI client not initialized.'', msgType = error\<rparr>]\<rparr>
      else (case processLoop (selectedFiles st) ({}, [], []) of
              (uniqueKeys, results, msgs) \<Rightarrow>
                st\<lparr>scannerIsLoading := False,
                   scannerResults := arraySort compareDates results,
                   scannerMessages := msgs\<rparr>))"

section \<open>The spreadsheet library, as far as downloadScannerExcel uses it\<close>

text \<open>
  A cell holds a value, a number format (\<^verbatim>\<open>z\<close>) and a style (\<^verbatim>\<open>s\<close>); a worksheet maps
  (row, column), both counted from zero, to cells and has column widths; a workbook is
  the list of its named sheets in the order they were appended.
\<close>

datatype cell_value = VStr string | VNum int | VDate jsdate | VUndefined

datatype style = titleStyle | periodTitleStyle | headerStyle | dataStyle | dataStyleCentered
  | totalLabelStyle | totalValStyle

record cell =
  cellValue :: cell_value
  cellFormat :: "string option"
  cellStyle :: "style option"

record worksheet =
  cells :: "nat \<times> nat \<Rightarrow> cell option"
  cols :: "nat list"

type_synonym workbook = "(string \<times> worksheet) list"

definition emptySheet :: worksheet where
  "emptySheet = \<lparr>cells = (\<lambda>ref. None), cols = []\<rparr>"

text \<open>
  \<^verbatim>\<open>XLSX.utils.sheet_add_aoa(ws, aoa, { origin })\<close> writes the array of arrays with its
  first entry at the origin; an \<^verbatim>\<open>undefined\<close> entry writes no cell.
  \<^verbatim>\<open>aoa_to_sheet(aoa)\<close> is the same on a new sheet, from A1.
\<close>

definition sheet_add_aoa :: "worksheet \<Rightarrow> cell_value list list \<Rightarrow> nat \<times> nat \<Rightarrow> worksheet" where
  "sheet_add_aoa ws aoa origin =
     ws\<lparr>cells := (\<lambda>(r, c).
        if fst origin \<le> r \<and> r - fst origin < length aoa
           \<and> snd origin \<le> c \<and> c - snd origin < length (aoa ! (r - fst origin))
           \<and> aoa ! (r - fst origin) ! (c - snd origin) \<noteq> VUndefined
        then Some \<lparr>cellValue = aoa ! (r - fst origin) ! (c - snd origin),
                   cellFormat = None, cellStyle = None\<rparr>
        else cells ws (r, c))\<rparr>"

definition aoa_to_sheet :: "cell_value list list \<Rightarrow> worksheet" where
  "aoa_to_sheet aoa = sheet_add_aoa emptySheet aoa (0, 0)"

text \<open>\<^verbatim>\<open>if (ws[ref]) ws[ref].s = st\<close> and \<^verbatim>\<open>if (ws[ref]) ws[ref].z = fmt\<close>.\<close>

definition setStyle :: "worksheet \<Rightarrow> nat \<times> nat \<Rightarrow> style \<Rightarrow> worksheet" where
  "setStyle ws ref st =
     (case cells ws ref of None \<Rightarrow> ws
      | Some c \<Rightarrow> ws\<lparr>cells := (cells ws)(ref \<mapsto> c\<lparr>cellStyle := Some st\<rparr>)\<rparr>)"

definition setFormat :: "worksheet \<Rightarrow> nat \<times> nat \<Rightarrow> string \<Rightarrow> worksheet" where
  "setFormat ws ref fmt =
     (case cells ws ref of None \<Rightarrow> ws
      | Some c \<Rightarrow> ws\<lparr>cells := (cells ws)(ref \<mapsto> c\<lparr>cellFormat := Some fmt\<rparr>)\<rparr>)"

definition valueAt :: "worksheet \<Rightarrow> nat \<times> nat \<Rightarrow> cell_value option" where
  "valueAt ws ref = map_option cellValue (cells ws ref)"

section \<open>Objects used as dictionaries\<close>

text \<open>
  A \<^verbatim>\<open>Record<string, number>\<close> is kept as the list of its entries in insertion order.
  \<^verbatim>\<open>Object.keys\<close> and \<^verbatim>\<open>for ... in\<close> enumerate the keys that are array indices
  (canonical decimal numerals below \<open>2^32 - 1 = 4294967295\<close>) first, in ascending numeric order, and
  then the other keys in insertion order. Keys are taken not to be names that every
  object inherits (\<^verbatim>\<open>constructor\<close>, \<^verbatim>\<open>toString\<close>, ...).
\<close>

type_synonym counts = "(string \<times> nat) list"

definition increment :: "counts \<Rightarrow> string \<Rightarrow> counts" where
  "increment acc k =
     (case map_of acc k of
        None \<Rightarrow> acc @ [(k, 1)]
      | Some n \<Rightarrow> map (\<lambda>(k', v). if k' = k then (k', n + 1) else (k', v)) acc)"

definition isArrayIndex :: "string \<Rightarrow> bool" where
  "isArrayIndex k = (k \<noteq> [] \<and> list_all is_digit k \<and> (k = ''0'' \<or> hd k \<noteq> CHR ''0'')
                     \<and> digitsValue k < 4294967295)"

definition keyOrder :: "string list \<Rightarrow> string list" where
  "keyOrder ks = sort_key digitsValue (filter isArrayIndex ks) @ filter (\<lambda>k. \<not> isArrayIndex k) ks"

definition objectKeys :: "(string \<times> 'v) list \<Rightarrow> string list" where
  "objectKeys obj = keyOrder (map fst obj)"

text \<open>
  The reducer \<^verbatim>\<open>(a, b) => counts[a] > counts[b] ? a : b\<close>; a comparison with the
  \<^verbatim>\<open>undefined\<close> count of a missing key is false.
\<close>

definition moreFrequent :: "counts \<Rightarrow> string \<Rightarrow> string \<Rightarrow> string" where
  "moreFrequent cnt a b =
     (case (map_of cnt a, map_of cnt b) of
        (Some x, Some y) \<Rightarrow> if y < x then a else b
      | _ \<Rightarrow> b)"

text \<open>A \<^verbatim>\<open>Set<string>\<close>, as the list of its members in insertion order.\<close>

definition setAdd :: "string list \<Rightarrow> string \<Rightarrow> string list" where
  "setAdd xs x = (if x \<in> set xs then xs else xs @ [x])"

text \<open>\<^verbatim>\<open>array.sort()\<close> without comparator orders strings by their code units.\<close>

definition defaultCompare :: "string \<Rightarrow> string \<Rightarrow> int" where
  "defaultCompare a b = (if a < b then - 1 else if b < a then 1 else 0)"

section \<open>downloadScannerExcel: the upload template\<close>

datatype templateType = standard | upload

definition uploadHeaders :: "string list" where
  "uploadHeaders = [''REVENUE ITEM'', ''DATE OF PAYMENT'', ''AMOUNT PAID'', ''RECEIPT NUMBER'',
                    ''PERIOD OF PAYMENT'']"

definition displayTaxType :: "ScannerResult \<Rightarrow> string" where
  "displayTaxType row =
     (let upperTax = toUpperCase (taxType row)
      in if str_includes upperTax ''LAGOS REVENUE PAYMENT'' \<or> upperTax = ''REVENUE PAYMENT''
            \<or> upperTax = ''REVENUE RECEIPT''
         then ''PAYE'' else taxType row)"

definition isPaye :: "ScannerResult \<Rightarrow> bool" where
  "isPaye row = str_includes (toUpperCase (displayTaxType row)) ''PAYE''"

definition monthMap :: "(string \<times> string) list" where
  "monthMap =
     [(''Jan'', ''JANUARY''), (''Feb'', ''FEBRUARY''), (''Mar'', ''MARCH''), (''Apr'', ''APRIL''),
      (''May'', ''MAY''), (''Jun'', ''JUNE''), (''Jul'', ''JULY''), (''Aug'', ''AUGUST''),
      (''Sep'', ''SEPTEMBER''), (''Oct'', ''OCTOBER''), (''Nov'', ''NOVEMBER''), (''Dec'', ''DECEMBER''),
      (''jan'', ''JANUARY''), (''feb'', ''FEBRUARY''), (''mar'', ''MARCH''), (''apr'', ''APRIL''),
      (''may'', ''MAY''), (''jun'', ''JUNE''), (''jul'', ''JULY''), (''aug'', ''AUGUST''),
      (''sep'', ''SEPTEMBER''), (''oct'', ''OCTOBER''), (''nov'', ''NOVEMBER''), (''dec'', ''DECEMBER'')]"

definition periodVal :: "ScannerResult \<Rightarrow> string" where
  "periodVal row =
     (case split_hyphen (paymentPeriod row) of
        [m, p1] \<Rightarrow>
          (let y = (if length p1 = 2 then ''20'' @ p1 else p1)
           in if isPaye row
              then (case map_of monthMap m of
                      Some v \<Rightarrow> v
                    | None \<Rightarrow> (case map_of monthMap (toLowerCase m) of
                                 Some v \<Rightarrow> v
                               | None \<Rightarrow> toUpperCase m))
              else y)
      | _ \<Rightarrow>
          (let d = newDate (paymentDate row)
           in if isPaye row then toUpperCase (monthLong d)
              else optNumToString (getFullYear d)))"

definition uploadRow :: "ScannerResult \<Rightarrow> cell_value list" where
  "uploadRow row =
     [VStr (displayTaxType row), VDate (newDate (paymentDate row)), VNum (amount row),
      VStr (receiptNumber row), VStr (periodVal row)]"

text \<open>
  The sheet: headers and rows from A1, then the date format on column B of every row
  below the header that has a cell there, then the column widths.
\<close>

definition uploadSheet :: "ScannerResult list \<Rightarrow> worksheet" where
  "uploadSheet sortedResults =
     (let dataRows = map uploadRow sortedResults;
          ws = aoa_to_sheet (map VStr uploadHeaders # dataRows);
          ws' = foldl (\<lambda>w R. if 0 < R then setFormat w (R, 1) ''dd/mm/yyyy'' else w) ws
                  [0..<Suc (length dataRows)]
      in ws'\<lparr>cols := [30, 15, 15, 25, 20]\<rparr>)"

section \<open>downloadScannerExcel: the standard template\<close>

text \<open>
  \<^verbatim>\<open>period.match(/(\d{2,4})$/)\<close>: the leftmost place from which two to four digits
  reach the end of the string.
\<close>

fun matchYear :: "string \<Rightarrow> string option" where
  "matchYear [] = None"
| "matchYear (c # cs) =
     (if 2 \<le> length (c # cs) \<and> length (c # cs) \<le> 4 \<and> list_all is_digit (c # cs)
      then Some (c # cs) else matchYear cs)"

definition getYearFromPeriod :: "string \<Rightarrow> string" where
  "getYearFromPeriod period =
     (if period = [] then ''Unknown''
      else (case matchYear period of
              Some m \<Rightarrow> (if length m = 2 then ''20'' @ m else m)
            | None \<Rightarrow> ''Unknown''))"

definition canonicalTaxType :: "string \<Rightarrow> string" where
  "canonicalTaxType tax =
     (let t = toUpperCase tax
      in if str_includes t ''WHT'' \<or> str_includes t ''WITHHOLDING'' then ''WHT''
         else if str_includes t ''VAT'' \<or> str_includes t ''VALUE ADDED'' then ''VAT''
         else if str_includes t ''PAYE'' \<or> str_includes t ''PAY AS YOU EARN'' then ''PAYE''
         else if str_includes t ''CIT'' \<or> str_includes t ''COMPANY INCOME'' then ''CIT''
         else if str_includes t ''EDT'' \<or> str_includes t ''EDUCATION'' then ''EDT''
         else ''TAX'')"

text \<open>The second \<^verbatim>\<open>forEach\<close>: company frequencies and the set of tax short-codes.\<close>

definition companyFrequency :: "ScannerResult list \<Rightarrow> counts" where
  "companyFrequency rows =
     foldl (\<lambda>acc row. if companyName row \<noteq> [] then increment acc (companyName row) else acc) [] rows"

definition extractedTaxTypes :: "ScannerResult list \<Rightarrow> string list" where
  "extractedTaxTypes rows =
     foldl (\<lambda>acc row. if taxType row \<noteq> [] then setAdd acc (canonicalTaxType (taxType row)) else acc)
       [] rows"

text \<open>The title of a year's sheet: \<^verbatim>\<open>companyCounts\<close> and the reduce from "NASD PLC".\<close>

definition companyCounts :: "ScannerResult list \<Rightarrow> counts" where
  "companyCounts sheetData =
     foldl (\<lambda>acc row. increment acc (if companyName row \<noteq> [] then companyName row else ''Unknown''))
       [] sheetData"

definition titleName :: "ScannerResult list \<Rightarrow> string" where
  "titleName sheetData =
     foldl (moreFrequent (companyCounts sheetData)) ''NASD PLC'' (objectKeys (companyCounts sheetData))"

definition standardHeaders :: "string list" where
  "standardHeaders = [''PAYMENT DATE'', ''PERIOD'', ''RECEIPT NUMBER'', ''TAX TYPE'', ''AMOUNT [N]'']"

definition standardRow :: "ScannerResult \<Rightarrow> cell_value list" where
  "standardRow row =
     [if paymentDate row \<noteq> [] then VDate (newDate (paymentDate row)) else VUndefined,
      VStr (paymentPeriod row), VStr (receiptNumber row), VStr (taxType row), VNum (amount row)]"

definition styleDataRow :: "worksheet \<Rightarrow> nat \<Rightarrow> worksheet" where
  "styleDataRow ws idx =
     (let r = 4 + idx;
          ws1 = setStyle (setFormat ws (r, 0) ''dd/mm/yyyy'') (r, 0) dataStyleCentered;
          ws2 = foldl (\<lambda>w c. setStyle w (r, c) dataStyle) ws1 [1, 2, 3]
      in setStyle (setFormat ws2 (r, 4) ''#,##0.00'') (r, 4) dataStyle)"

definition buildSheet :: "string \<Rightarrow> ScannerResult list \<Rightarrow> worksheet" where
  "buildSheet year sheetData =
     (let total = foldl (\<lambda>sum row. sum + amount row) 0 sheetData;
          ws1 = setStyle (sheet_add_aoa (aoa_to_sheet []) [[VStr (titleName sheetData)]] (0, 0))
                  (0, 0) titleStyle;
          ws2 = setStyle (sheet_add_aoa ws1 [[VStr (''REMITTANCE SCHEDULE FOR '' @ year)]] (1, 0))
                  (1, 0) periodTitleStyle;
          ws3 = sheet_add_aoa ws2 [map VStr standardHeaders] (3, 0);
          ws4 = foldl (\<lambda>w ref. setStyle w ref headerStyle) ws3 [(3, 0), (3, 1), (3, 2), (3, 3), (3, 4)];
          dataRows = map standardRow sheetData;
          ws5 = sheet_add_aoa ws4 dataRows (4, 0);
          ws6 = foldl styleDataRow ws5 [0..<length dataRows];
          totalRowIndex = 4 + length dataRows + 1;
          ws7 = sheet_add_aoa ws6 [[VStr [], VStr [], VStr [], VStr ''Total'', VNum total]]
                  (totalRowIndex, 0);
          ws8 = setStyle ws7 (totalRowIndex, 3) totalLabelStyle;
          ws9 = setStyle (setFormat ws8 (totalRowIndex, 4) ''#,##0.00'') (totalRowIndex, 4) totalValStyle
      in ws9\<lparr>cols := [15, 12, 30, 30, 20]\<rparr>)"

text \<open>The file name.\<close>

definition dominantCompany :: "ScannerResult list \<Rightarrow> string" where
  "dominantCompany rows =
     (case objectKeys (companyFrequency rows) of
        [] \<Rightarrow> ''Unknown_Company''
      | a # bs \<Rightarrow> foldl (moreFrequent (companyFrequency rows)) a bs)"

function collapseSpaces :: "string \<Rightarrow> string" where
  "collapseSpaces [] = []"
| "collapseSpaces (c # cs) =
     (if is_space c then CHR ''_'' # collapseSpaces (dropWhile is_space cs)
      else c # collapseSpaces cs)"
  by pat_completeness auto
termination
  by (relation "measure length") (auto simp: length_dropWhile_le less_Suc_eq_le)

definition safeCompanyName :: "string \<Rightarrow> string" where
  "safeCompanyName company =
     collapseSpaces (trim (filter (\<lambda>c. is_letter c \<or> is_digit c \<or> is_space c) company))"

definition taxTypesStr :: "ScannerResult list \<Rightarrow> string" where
  "taxTypesStr rows =
     (let joined = join_underscore (arraySort defaultCompare (extractedTaxTypes rows))
      in if joined = [] then ''Remittance'' else joined)"

definition filename :: "ScannerResult list \<Rightarrow> string" where
  "filename rows =
     safeCompanyName (dominantCompany rows) @ ''_'' @ taxTypesStr rows @ ''_Schedule.xlsx''"

section \<open>downloadScannerExcel: arrays, copies and in-place sorting\<close>

text \<open>
  \<^verbatim>\<open>Array.prototype.sort\<close> sorts the array it is called on. To see which arrays
  \<^verbatim>\<open>downloadScannerExcel\<close> sorts, arrays live in a store, at addresses: the ledger
  \<^verbatim>\<open>scannerResults\<close> at one address, the copy \<^verbatim>\<open>[...scannerResults]\<close> and the arrays of
  \<^verbatim>\<open>dataByYear\<close> at addresses allocated during the export.
\<close>

record store =
  arrays :: "nat \<Rightarrow> ScannerResult list"
  fresh :: nat

definition alloc :: "ScannerResult list \<Rightarrow> store \<Rightarrow> nat \<times> store" where
  "alloc xs h = (fresh h, h\<lparr>arrays := (arrays h)(fresh h := xs), fresh := Suc (fresh h)\<rparr>)"

definition push :: "nat \<Rightarrow> ScannerResult \<Rightarrow> store \<Rightarrow> store" where
  "push a row h = h\<lparr>arrays := (arrays h)(a := arrays h a @ [row])\<rparr>"

definition sortInPlace :: "nat \<Rightarrow> store \<Rightarrow> store" where
  "sortInPlace a h = h\<lparr>arrays := (arrays h)(a := arraySort compareDates (arrays h a))\<rparr>"

text \<open>
  \<^verbatim>\<open>array.forEach(f)\<close> visits the indices below the length the array had at the start
  and reads each element when its turn comes.
\<close>

definition forEach ::
  "nat \<Rightarrow> (ScannerResult \<Rightarrow> 'acc \<times> store \<Rightarrow> 'acc \<times> store) \<Rightarrow> 'acc \<times> store \<Rightarrow> 'acc \<times> store" where
  "forEach a f init =
     foldl (\<lambda>st k. if k < length (arrays (snd st) a) then f (arrays (snd st) a ! k) st else st)
       init [0..<length (arrays (snd init) a)]"

datatype effect = Alert string | WriteFile workbook string

definition exportUpload :: "nat \<Rightarrow> store \<Rightarrow> effect \<times> store" where
  "exportUpload ledger h =
     (case alloc (arrays h ledger) h of
        (sortedResults, h1) \<Rightarrow>
          (let h2 = sortInPlace sortedResults h1
           in (WriteFile [(''Upload'', uploadSheet (arrays h2 sortedResults))]
                 ''Lagos_State_Upload_Schedule.xlsx'', h2)))"

text \<open>
  \<^verbatim>\<open>dataByYear\<close> maps a year to the address of its array. The first \<^verbatim>\<open>forEach\<close>
  creates an empty array for a year not yet seen and pushes the row.
\<close>

definition addToYear ::
  "ScannerResult \<Rightarrow> (string \<times> nat) list \<times> store \<Rightarrow> (string \<times> nat) list \<times> store" where
  "addToYear row st =
     (case st of (dataByYear, h) \<Rightarrow>
        (let year = getYearFromPeriod (paymentPeriod row)
         in (case map_of dataByYear year of
               None \<Rightarrow> (case alloc [] h of (a, h1) \<Rightarrow> (dataByYear @ [(year, a)], push a row h1))
             | Some a \<Rightarrow> (dataByYear, push a row h))))"

text \<open>One turn of \<^verbatim>\<open>for (const year in dataByYear)\<close>: sort the year's array, build and append its sheet.\<close>

definition addSheet :: "(string \<times> nat) list \<Rightarrow> workbook \<times> store \<Rightarrow> string \<Rightarrow> workbook \<times> store" where
  "addSheet dataByYear st year =
     (case st of (wb, h) \<Rightarrow>
        (case map_of dataByYear year of
           None \<Rightarrow> (wb, h)
         | Some a \<Rightarrow>
             (let h' = sortInPlace a h;
                  sheetData = arrays h' a
              in (wb @ [(''Remittance '' @ year, buildSheet year sheetData)], h'))))"

definition exportStandard :: "nat \<Rightarrow> store \<Rightarrow> effect \<times> store" where
  "exportStandard ledger h =
     (case forEach ledger addToYear ([], h) of
        (dataByYear, h1) \<Rightarrow>
          (let file = filename (arrays h1 ledger)
           in (case foldl (addSheet dataByYear) ([], h1) (objectKeys dataByYear) of
                 (wb, h2) \<Rightarrow> (WriteFile wb file, h2))))"

text \<open>
  The function: it reads the state \<^verbatim>\<open>scannerResults\<close>, whose array is put at address 0
  of a store holding nothing else, and the state afterwards holds what that address holds
  when the export is over. \<open>xlsx\<close> tells whether \<^verbatim>\<open>window.XLSX\<close> is there.
\<close>

definition downloadScannerExcel :: "bool \<Rightarrow> templateType \<Rightarrow> app_state \<Rightarrow> effect list \<times> app_state" where
  "downloadScannerExcel xlsx templateType st =
     (if \<not> xlsx then ([Alert ''Excel library not found!''], st)
      else (let h0 = \<lparr>arrays = (\<lambda>a. [])(0 := scannerResults st), fresh = 1\<rparr>
            in (case (if templateType = upload then exportUpload 0 h0 else exportStandard 0 h0) of
                  (eff, h') \<Rightarrow> ([eff], st\<lparr>scannerResults := arrays h' 0\<rparr>))))"

section \<open>Handlers and the download button\<close>

definition handleFileChange :: "File list option \<Rightarrow> app_state \<Rightarrow> app_state" where
  "handleFileChange files st =
     (case files of None \<Rightarrow> st
      | Some fs \<Rightarrow> st\<lparr>selectedFiles := fs, scannerResults := [], scannerMessages := []\<rparr>)"

definition handleDownloadClick :: "app_state \<Rightarrow> app_state" where
  "handleDownloadClick st = st\<lparr>showDownloadModal := True\<rparr>"

definition handleDownloadConfirm :: "bool \<Rightarrow> templateType \<Rightarrow> app_state \<Rightarrow> effect list \<times> app_state" where
  "handleDownloadConfirm xlsx templateType st =
     downloadScannerExcel xlsx templateType (st\<lparr>showDownloadModal := False\<rparr>)"

text \<open>
  The "Download Schedule" button, the only caller of \<^verbatim>\<open>handleDownloadClick\<close>, is
  rendered under \<^verbatim>\<open>scannerResults.length > 0\<close>.
\<close>

definition downloadButtonRendered :: "app_state \<Rightarrow> bool" where
  "downloadButtonRendered st = (0 < length (scannerResults st))"

text \<open>What an export hands to the spreadsheet library: the sheets written and the file names.\<close>

definition writtenSheets :: "effect list \<Rightarrow> workbook" where
  "writtenSheets effs = concat (map (\<lambda>e. case e of Alert m \<Rightarrow> [] | WriteFile wb f \<Rightarrow> wb) effs)"

definition writtenFiles :: "effect list \<Rightarrow> string list" where
  "writtenFiles effs = concat (map (\<lambda>e. case e of Alert m \<Rightarrow> [] | WriteFile wb f \<Rightarrow> [f]) effs)"

section \<open>Notions for stating what the export produces\<close>

text \<open>
  The year a row is filed under, the rows of a year, the order in which values first
  appear in a list, the years in the order of \<^verbatim>\<open>for ... in\<close>, and the sheet of a year
  built from its rows sorted by date.
\<close>

definition yearOf :: "ScannerResult \<Rightarrow> string" where
  "yearOf row = getYearFromPeriod (paymentPeriod row)"

definition firstSeen :: "'a list \<Rightarrow> 'a list" where
  "firstSeen xs = rev (remdups (rev xs))"

definition yearBucket :: "ScannerResult list \<Rightarrow> string \<Rightarrow> ScannerResult list" where
  "yearBucket rows year = filter (\<lambda>row. yearOf row = year) rows"

definition years :: "ScannerResult list \<Rightarrow> string list" where
  "years rows = keyOrder (firstSeen (map yearOf rows))"

definition yearSheet :: "ScannerResult list \<Rightarrow> string \<Rightarrow> string \<times> worksheet" where
  "yearSheet rows year =
     (''Remittance '' @ year, buildSheet year (arraySort compareDates (yearBucket rows year)))"

text \<open>
  The state of the first \<^verbatim>\<open>forEach\<close> of the standard template after \<open>k\<close> rows: the
  ledger array is as it was, the years seen so far have arrays at distinct new addresses,
  and the array of a year holds the rows of that year among the first \<open>k\<close>.
\<close>

definition bucketsInv ::
  "nat \<Rightarrow> nat \<Rightarrow> ScannerResult list \<Rightarrow> nat \<Rightarrow> (string \<times> nat) list \<times> store \<Rightarrow> bool" where
  "bucketsInv ledger f0 rows k st =
     (arrays (snd st) ledger = rows \<and> f0 \<le> fresh (snd st) \<and> distinct (map snd (fst st))
        \<and> map fst (fst st) = firstSeen (map yearOf (take k rows))
        \<and> (\<forall>y a. (y, a) \<in> set (fst st) \<longrightarrow>
              f0 \<le> a \<and> a < fresh (snd st) \<and> arrays (snd st) a = yearBucket (take k rows) y))"

text \<open>
  The name a row is counted under for the title of a sheet (\<^verbatim>\<open>row.companyName || "Unknown"\<close>),
  how often a name occurs among rows, and the order in which \<^verbatim>\<open>Object.keys\<close> lists the
  names counted.
\<close>

definition countedName :: "ScannerResult \<Rightarrow> string" where
  "countedName row = (if companyName row \<noteq> [] then companyName row else ''Unknown'')"

definition occurrences :: "string \<Rightarrow> ScannerResult list \<Rightarrow> nat" where
  "occurrences n rows = count_list (map countedName rows) n"

definition nameOrder :: "ScannerResult list \<Rightarrow> string list" where
  "nameOrder rows = keyOrder (firstSeen (map countedName rows))"

text \<open>
  The full month names in upper case, by their three-letter abbreviation in lower case,
  and the look-up of an abbreviation written in any letter case.
\<close>

definition monthTable :: "(string \<times> string) list" where
  "monthTable = map (\<lambda>month. (toLowerCase (take 3 month), toUpperCase month)) monthNames"

definition fullMonthName :: "string \<Rightarrow> string option" where
  "fullMonthName m = map_of monthTable (toLowerCase m)"

text \<open>
  For the loop of \<^verbatim>\<open>processReceipts\<close>: a file is eligible when it passes the size and
  media-type checks; its extraction is the result that reaches the deduplication (the
  call returned, and the result has a company name); the keys of the extractions of the
  files before the \<open>j\<close>-th; and the message the \<open>j\<close>-th file is due: too large, wrong
  media type, failed, duplicate of an earlier key, or success.
\<close>

definition eligible :: "File \<Rightarrow> bool" where
  "eligible file = (size_bytes file \<le> maxSize \<and> mimeType file \<in> set acceptedTypes)"

definition extraction :: "File \<Rightarrow> ScannerResult option" where
  "extraction file =
     (if eligible file
      then (case callScannerGeminiAPI (serviceReply file) of
              Inl e \<Rightarrow> None
            | Inr result \<Rightarrow> if companyName result \<noteq> [] then Some result else None)
      else None)"

definition earlierKeys :: "File list \<Rightarrow> nat \<Rightarrow> string list" where
  "earlierKeys files j = map uniqueKey (List.map_filter extraction (take j files))"

definition expectedMessage :: "File list \<Rightarrow> nat \<Rightarrow> message" where
  "expectedMessage files j =
     (let file = files ! j
      in if maxSize < size_bytes file then tooLargeMessage file
         else if mimeType file \<notin> set acceptedTypes then wrongTypeMessage file
         else (case callScannerGeminiAPI (serviceReply file) of
                 Inl e \<Rightarrow> failedMessage file e
               | Inr result \<Rightarrow>
                   if companyName result = [] then failedMessage file ''AI did not return valid data.''
                   else if uniqueKey result \<in> set (earlierKeys files j)
                   then duplicateMessage result file
                   else successMessage file))"

text \<open>Of the elements of a list, the first one for each key, in the order of the list.\<close>

definition keepFirst :: "('a \<Rightarrow> 'k) \<Rightarrow> 'a list \<Rightarrow> 'a list" where
  "keepFirst key xs = foldl (\<lambda>acc x. if key x \<in> key ` set acc then acc else acc @ [x]) [] xs"

text \<open>
  Whether the payment date of a record parses, and its time; the time of a record without
  valid date is put at 0.
\<close>

definition validDate :: "ScannerResult \<Rightarrow> bool" where
  "validDate row = (getTime (newDate (paymentDate row)) \<noteq> None)"

definition timeOf :: "ScannerResult \<Rightarrow> int" where
  "timeOf row = (case getTime (newDate (paymentDate row)) of Some t \<Rightarrow> t | None \<Rightarrow> 0)"

section \<open>Example data\<close>

definition receipt :: "string \<Rightarrow> string \<Rightarrow> string \<Rightarrow> string \<Rightarrow> string \<Rightarrow> int \<Rightarrow> ScannerResult" where
  "receipt company date period number tax amt =
     \<lparr>companyName = company, paymentDate = date, paymentDateDisplay = [], paymentPeriod = period,
      receiptNumber = number, taxType = tax, amount = amt\<rparr>"

definition document :: "string \<Rightarrow> ScannerResult \<Rightarrow> File" where
  "document file_name data =
     \<lparr>name = file_name, size_bytes = 1024, mimeType = ''application/pdf'', serviceReply = Parsed data\<rparr>"

definition session :: "bool \<Rightarrow> File list \<Rightarrow> ScannerResult list \<Rightarrow> app_state" where
  "session client files ledger =
     \<lparr>ai = client, selectedFiles = files, scannerIsLoading = False, scannerResults = ledger,
      scannerMessages = [], showDownloadModal = False\<rparr>"

definition exampleLedger :: "ScannerResult list" where
  "exampleLedger =
     [receipt ''Beta'' ''2024-01-01'' ''Dec-23'' ''R2'' ''Value added tax'' 50,
      receipt ''Acme Corp!'' ''2024-02-01'' ''Jan-24'' ''R1'' ''PAYE'' 100,
      receipt ''Acme Corp!'' ''2024-03-01'' ''Feb-24'' ''R3'' ''paye'' 10]"

definition tiedLedger :: "ScannerResult list" where
  "tiedLedger =
     [receipt ''Alpha'' ''2024-01-10'' ''Dec-23'' ''R1'' ''PAYE'' 100,
      receipt ''Beta'' ''2024-01-20'' ''Dec-23'' ''R2'' ''PAYE'' 200]"

definition lowercasePayeLedger :: "ScannerResult list" where
  "lowercasePayeLedger = [receipt ''Acme'' ''2025-02-10'' ''Jan-25'' ''R1'' ''paye'' 100]"

definition collidingFiles :: "File list" where
  "collidingFiles =
     [document ''a.pdf'' (receipt ''Acme'' ''2024-01-10'' ''Dec-23'' ''A-'' ''PAYE'' 5),
      document ''b.pdf'' (receipt ''Acme'' ''2024-01-20'' ''Dec-23'' ''A'' ''PAYE'' (- 5))]"

definition exampleFiles :: "File list" where
  "exampleFiles =
     [document ''feb.pdf'' (receipt ''Acme Corp!'' ''2024-02-01'' ''Jan-24'' ''R1'' ''PAYE'' 100),
      (document ''big.pdf'' (receipt ''Acme Corp!'' ''2024-02-01'' ''Jan-24'' ''R7'' ''PAYE'' 100))
        \<lparr>size_bytes := 20000000\<rparr>,
      document ''jan.pdf'' (receipt ''Beta'' ''2024-01-01'' ''Dec-23'' ''R2'' ''Value added tax'' 50),
      document ''again.pdf'' (receipt ''Other'' ''2024-04-04'' ''Mar-24'' '' R1 '' ''VAT'' 100),
      (document ''notes.txt'' (receipt ''Beta'' ''2024-01-01'' ''Dec-23'' ''R8'' ''VAT'' 50))
        \<lparr>mimeType := ''text/plain''\<rparr>,
      (document ''broken.pdf'' (receipt ''Beta'' ''2024-01-01'' ''Dec-23'' ''R9'' ''VAT'' 50))
        \<lparr>serviceReply := Threw ''quota exceeded''\<rparr>,
      document ''mar.pdf'' (receipt ''Acme Corp!'' ''2024-03-01'' ''Feb-24'' ''R3'' ''paye'' 10),
      document ''feb2.pdf'' (receipt ''Gamma'' ''2024-02-01'' ''Jan-24'' ''R4'' ''PAYE'' 70)]"

definition undatedFiles :: "File list" where
  "undatedFiles =
     [document ''feb.pdf'' (receipt ''Acme'' ''2024-02-01'' ''Jan-24'' ''R1'' ''PAYE'' 100),
      document ''undated.pdf'' (receipt ''Acme'' [] ''Dec-23'' ''R2'' ''PAYE'' 50),
      document ''jan.pdf'' (receipt ''Acme'' ''2024-01-01'' ''Dec-23'' ''R3'' ''PAYE'' 10)]"

definition unsortedStore :: store where
  "unsortedStore = \<lparr>arrays = (\<lambda>a. [])(0 := rev exampleLedger), fresh = 1\<rparr>"

section \<open>The derived payment period (claim C3)\<close>

lemma rollDay_in_month: "d \<le> daysInMonth y m \<Longrightarrow> rollDay y m d = (y, m, d)"
  by (simp add: rollDay.simps)

text \<open>
  Where the day of the month exists in the preceding month, the derived period names
  that month: the code and the rule "the month before the payment" agree on these dates.
\<close>

lemma derivePeriod_previous_month:
  assumes "newDate pd = Some (y, m, d)"
    and "m < 12"
    and "d \<le> daysInMonth (if m = 0 then y - 1 else y) (if m = 0 then 11 else m - 1)"
  shows "derivePeriod pd =
           take 3 (monthNames ! (if m = 0 then 11 else m - 1)) @ ''-''
           @ slice_last2 (numToString (if m = 0 then y - 1 else y))"
proof (cases "m = 0")
  case True
  have "setMonth (Some (y, 0, d)) (- 1) = Some (y - 1, 11, d)"
    using assms(3) True by (simp add: setMonth_def rollDay_in_month)
  then show ?thesis
    using assms(1) True
    by (simp add: derivePeriod_def getMonth_def monthShort_def getFullYear_def optNumToString_def)
next
  case False
  then have k: "(int m - 1) div 12 = 0" "nat ((int m - 1) mod 12) = m - 1"
    using assms(2) by auto
  have "setMonth (Some (y, m, d)) (int m - 1) = Some (y, m - 1, d)"
    using assms(3) False by (simp add: setMonth_def k rollDay_in_month)
  then show ?thesis
    using assms(1) False
    by (simp add: derivePeriod_def getMonth_def monthShort_def getFullYear_def optNumToString_def)
qed

lemma derivePeriod_january_2024: "derivePeriod ''2024-01-15'' = ''Dec-23''"
  by code_simp

text \<open>
  Claim C3: when \<^verbatim>\<open>paymentPeriod\<close> is absent and \<^verbatim>\<open>paymentDate\<close> is present, the period
  is the calendar month before the month of the payment, as three-letter abbreviation,
  hyphen and two-digit year. The code fails it where the day of the payment does not
  exist in the month before: for a payment on 31 March 2024, \<^verbatim>\<open>setMonth\<close> asks for
  31 February, which runs over to 2 March, and the period comes out as \<open>Mar-24\<close>, the
  month of the payment itself, where the claim asks for \<open>Feb-24\<close>.
\<close>

theorem period_of_31_march_is_march:
  "callScannerGeminiAPI (Parsed (receipt ''Acme'' ''2024-03-31'' [] ''R1'' ''PAYE'' 100))
     = Inr ((receipt ''Acme'' ''2024-03-31'' ''Mar-24'' ''R1'' ''PAYE'' 100)
              \<lparr>paymentDateDisplay := ''31/03/2024''\<rparr>)"
  by code_simp

section \<open>What downloadScannerExcel writes and leaves\<close>

lemma firstSeen_snoc: "firstSeen (xs @ [x]) = (if x \<in> set xs then firstSeen xs else firstSeen xs @ [x])"
  by (simp add: firstSeen_def)

lemma set_firstSeen [simp]: "set (firstSeen xs) = set xs"
  by (simp add: firstSeen_def)

lemma distinct_firstSeen [simp]: "distinct (firstSeen xs)"
  by (simp add: firstSeen_def)

lemma yearBucket_snoc:
  "yearBucket (rows @ [row]) y = (if yearOf row = y then yearBucket rows y @ [row] else yearBucket rows y)"
  by (simp add: yearBucket_def)

lemma bucketsInv_step:
  assumes inv: "bucketsInv ledger f0 rows k st" and k: "k < length rows" and l: "ledger < f0"
  shows "bucketsInv ledger f0 rows (Suc k) (addToYear (rows ! k) st)"
proof -
  obtain d h where st: "st = (d, h)" by (cases st)
  let ?y = "yearOf (rows ! k)"
  let ?xs = "map yearOf (take k rows)"
  from inv st have a1: "arrays h ledger = rows" and a2: "f0 \<le> fresh h"
    and a3: "distinct (map snd d)" and a4: "map fst d = firstSeen ?xs"
    and a5: "\<And>y a. (y, a) \<in> set d \<Longrightarrow> f0 \<le> a \<and> a < fresh h \<and> arrays h a = yearBucket (take k rows) y"
    by (simp_all add: bucketsInv_def)
  have tk: "take (Suc k) rows = take k rows @ [rows ! k]"
    using k by (simp add: take_Suc_conv_app_nth)
  have xs': "map yearOf (take (Suc k) rows) = ?xs @ [?y]" by (simp add: tk)
  have dk: "distinct (map fst d)" using a4 by simp
  have keys: "fst ` set d = set ?xs"
    using a4 by (metis set_firstSeen set_map)
  show ?thesis
  proof (cases "map_of d ?y")
    case None
    then have new: "?y \<notin> set ?xs"
      using keys by (simp add: map_of_eq_None_iff)
    have nb: "yearBucket (take k rows) ?y = []"
      using new by (force simp: yearBucket_def filter_empty_conv image_iff)
    define h' where "h' = h\<lparr>arrays := (arrays h)(fresh h := [rows ! k]), fresh := Suc (fresh h)\<rparr>"
    have res: "addToYear (rows ! k) st = (d @ [(?y, fresh h)], h')"
      using None st by (simp add: addToYear_def yearOf_def alloc_def push_def Let_def h'_def)
    have c1: "arrays h' ledger = rows" using a1 a2 l by (simp add: h'_def)
    have c2: "f0 \<le> fresh h'" using a2 by (simp add: h'_def)
    have nf: "fresh h \<notin> snd ` set d" using a5 by fastforce
    have c3: "distinct (map snd (d @ [(?y, fresh h)]))" using a3 nf by simp
    have c4: "map fst (d @ [(?y, fresh h)]) = firstSeen (map yearOf (take (Suc k) rows))"
      using a4 new by (simp add: xs' firstSeen_snoc)
    have c5: "f0 \<le> a \<and> a < fresh h' \<and> arrays h' a = yearBucket (take (Suc k) rows) y"
      if m: "(y, a) \<in> set (d @ [(?y, fresh h)])" for y a
    proof (cases "(y, a) \<in> set d")
      case True
      then have "y \<in> set ?xs" using keys by (metis fst_conv image_eqI)
      then have ny: "?y \<noteq> y" using new by auto
      have "a < fresh h" using a5[OF True] by simp
      then show ?thesis using a5[OF True] ny by (simp add: h'_def tk yearBucket_snoc)
    next
      case False
      then have "y = ?y" "a = fresh h" using m by auto
      then show ?thesis using a2 nb by (simp add: h'_def tk yearBucket_snoc)
    qed
    show ?thesis
      unfolding res bucketsInv_def fst_conv snd_conv
      using c1 c2 c3 c4 c5 by blast
  next
    case (Some b)
    then have mem: "(?y, b) \<in> set d" by (simp add: map_of_SomeD)
    then have old: "?y \<in> set ?xs" using keys by (metis fst_conv image_eqI)
    define h' where "h' = h\<lparr>arrays := (arrays h)(b := arrays h b @ [rows ! k])\<rparr>"
    have res: "addToYear (rows ! k) st = (d, h')"
      using Some st by (simp add: addToYear_def yearOf_def push_def Let_def h'_def)
    have bl: "b \<noteq> ledger" using a5[OF mem] l by auto
    have c1: "arrays h' ledger = rows" using a1 bl by (simp add: h'_def)
    have c2: "f0 \<le> fresh h'" using a2 by (simp add: h'_def)
    have c4: "map fst d = firstSeen (map yearOf (take (Suc k) rows))"
      using a4 old by (simp add: xs' firstSeen_snoc)
    have c5: "f0 \<le> a \<and> a < fresh h' \<and> arrays h' a = yearBucket (take (Suc k) rows) y"
      if m: "(y, a) \<in> set d" for y a
    proof (cases "a = b")
      case True
      have "y = ?y"
        using a3 m mem True by (metis distinct_map inj_onD snd_conv prod.inject)
      then show ?thesis using a5[OF m] True by (simp add: h'_def tk yearBucket_snoc)
    next
      case False
      have "y \<noteq> ?y"
        using dk m mem False by (metis eq_key_imp_eq_value)
      then show ?thesis using a5[OF m] False by (simp add: h'_def tk yearBucket_snoc)
    qed
    show ?thesis
      unfolding res bucketsInv_def fst_conv snd_conv
      using c1 c2 a3 c4 c5 by blast
  qed
qed

lemma forEach_addToYear_inv:
  assumes "n \<le> length rows" and "ledger < f0" and "bucketsInv ledger f0 rows 0 st0"
  shows "bucketsInv ledger f0 rows n
           (foldl (\<lambda>st k. if k < length (arrays (snd st) ledger) then addToYear (arrays (snd st) ledger ! k) st else st)
              st0 [0..<n])"
  using assms(1)
proof (induction n)
  case 0
  then show ?case using assms(3) by simp
next
  case (Suc n)
  let ?st = "foldl (\<lambda>st k. if k < length (arrays (snd st) ledger) then addToYear (arrays (snd st) ledger ! k) st else st) st0 [0..<n]"
  have inv: "bucketsInv ledger f0 rows n ?st" using Suc by simp
  then have r: "arrays (snd ?st) ledger = rows" by (simp add: bucketsInv_def)
  have "bucketsInv ledger f0 rows (Suc n) (addToYear (rows ! n) ?st)"
    using bucketsInv_step[OF inv _ assms(2)] Suc.prems by simp
  then show ?case using r Suc.prems by simp
qed

lemma forEach_addToYear:
  assumes "ledger < fresh h"
  shows "bucketsInv ledger (fresh h) (arrays h ledger) (length (arrays h ledger))
           (forEach ledger addToYear ([], h))"
proof -
  have "bucketsInv ledger (fresh h) (arrays h ledger) 0 ([], h)"
    by (simp add: bucketsInv_def firstSeen_def)
  from forEach_addToYear_inv[OF le_refl assms this]
  show ?thesis by (simp add: forEach_def)
qed


lemma arraySort_set [simp]: "set (arraySort cmp xs) = set xs"
proof -
  have ins: "set (insertBy cmp x ys) = insert x (set ys)" for x ys
    by (induction ys) auto
  show ?thesis unfolding arraySort_def by (induction xs) (simp_all add: ins)
qed

text \<open>The loop over the years: each turn sorts one bucket and appends its sheet.\<close>

lemma addSheet_loop:
  assumes "distinct ks" and "distinct (map snd d)" and "distinct (map fst d)"
    and "set ks \<subseteq> fst ` set d"
    and "\<And>y a. (y, a) \<in> set d \<Longrightarrow> a \<noteq> ledger"
    and "\<And>y a. (y, a) \<in> set d \<Longrightarrow> y \<in> set ks \<Longrightarrow> arrays h a = yearBucket rows y"
  shows "fst (foldl (addSheet d) (wb, h) ks) = wb @ map (yearSheet rows) ks
         \<and> arrays (snd (foldl (addSheet d) (wb, h) ks)) ledger = arrays h ledger"
  using assms(1,4,6)
proof (induction ks arbitrary: wb h)
  case Nil
  then show ?case by simp
next
  case (Cons k ks)
  from Cons.prems(2) obtain a where ka: "(k, a) \<in> set d" by auto
  then have mo: "map_of d k = Some a" using assms(3) by simp
  define h' where "h' = sortInPlace a h"
  have step: "addSheet d (wb, h) k = (wb @ [yearSheet rows k], h')"
    using mo Cons.prems(3)[OF ka] by (simp add: addSheet_def yearSheet_def sortInPlace_def h'_def Let_def)
  have other: "arrays h' b = yearBucket rows y" if m: "(y, b) \<in> set d" and y: "y \<in> set ks" for y b
  proof -
    have "y \<noteq> k" using Cons.prems(1) y by auto
    then have "b \<noteq> a"
      using assms(2) m ka by (metis distinct_map inj_onD snd_conv prod.inject)
    then show ?thesis using Cons.prems(3)[OF m] y by (simp add: h'_def sortInPlace_def)
  qed
  have led: "arrays h' ledger = arrays h ledger"
    using assms(5)[OF ka] by (simp add: h'_def sortInPlace_def)
  have "fst (foldl (addSheet d) (wb @ [yearSheet rows k], h') ks) = (wb @ [yearSheet rows k]) @ map (yearSheet rows) ks
         \<and> arrays (snd (foldl (addSheet d) (wb @ [yearSheet rows k], h') ks)) ledger = arrays h' ledger"
    using Cons.prems(1,2) other by (intro Cons.IH) auto
  then show ?case using step led by simp
qed

lemma keyOrder_set [simp]: "set (keyOrder ks) = set ks"
  by (auto simp: keyOrder_def)

lemma keyOrder_distinct: "distinct ks \<Longrightarrow> distinct (keyOrder ks)"
  by (auto simp: keyOrder_def)

lemma exportStandard_result:
  assumes "ledger < fresh h"
  shows "fst (exportStandard ledger h)
           = WriteFile (map (yearSheet (arrays h ledger)) (years (arrays h ledger))) (filename (arrays h ledger))"
    and "arrays (snd (exportStandard ledger h)) ledger = arrays h ledger"
proof -
  let ?rows = "arrays h ledger"
  obtain d h1 where fe: "forEach ledger addToYear ([], h) = (d, h1)"
    by (cases "forEach ledger addToYear ([], h)")
  have inv: "bucketsInv ledger (fresh h) ?rows (length ?rows) (d, h1)"
    using forEach_addToYear[OF assms] fe by simp
  then have b1: "arrays h1 ledger = ?rows" and b3: "distinct (map snd d)"
    and b4: "map fst d = firstSeen (map yearOf ?rows)"
    and b5: "\<And>y a. (y, a) \<in> set d \<Longrightarrow> fresh h \<le> a \<and> arrays h1 a = yearBucket ?rows y"
    by (simp_all add: bucketsInv_def)
  have dk: "distinct (map fst d)" using b4 by simp
  have ks: "objectKeys d = years ?rows" by (simp add: objectKeys_def years_def b4)
  have sub: "set (objectKeys d) \<subseteq> fst ` set d"
    by (simp add: objectKeys_def)
  have dis: "distinct (objectKeys d)"
    unfolding objectKeys_def using dk by (rule keyOrder_distinct)
  have nl: "\<And>y a. (y, a) \<in> set d \<Longrightarrow> a \<noteq> ledger" using b5 assms by fastforce
  have loop: "fst (foldl (addSheet d) ([], h1) (objectKeys d)) = [] @ map (yearSheet ?rows) (objectKeys d)
         \<and> arrays (snd (foldl (addSheet d) ([], h1) (objectKeys d))) ledger = arrays h1 ledger"
    using dis b3 dk sub nl b5 by (intro addSheet_loop) auto
  show "fst (exportStandard ledger h)
           = WriteFile (map (yearSheet ?rows) (years ?rows)) (filename ?rows)"
    using loop by (simp add: exportStandard_def fe b1 ks Let_def case_prod_beta)
  show "arrays (snd (exportStandard ledger h)) ledger = ?rows"
    using loop by (simp add: exportStandard_def fe b1 Let_def case_prod_beta)
qed

lemma exportUpload_result:
  assumes "ledger < fresh h"
  shows "fst (exportUpload ledger h)
           = WriteFile [(''Upload'', uploadSheet (arraySort compareDates (arrays h ledger)))]
               ''Lagos_State_Upload_Schedule.xlsx''"
    and "arrays (snd (exportUpload ledger h)) ledger = arrays h ledger"
  using assms by (simp_all add: exportUpload_def alloc_def sortInPlace_def Let_def)

text \<open>What the export writes, and that the state is left as it was.\<close>

lemma downloadScannerExcel_effects:
  "fst (downloadScannerExcel xlsx templateType st) =
     (if \<not> xlsx then [Alert ''Excel library not found!'']
      else if templateType = upload
      then [WriteFile [(''Upload'', uploadSheet (arraySort compareDates (scannerResults st)))]
              ''Lagos_State_Upload_Schedule.xlsx'']
      else [WriteFile (map (yearSheet (scannerResults st)) (years (scannerResults st)))
              (filename (scannerResults st))])"
proof -
  let ?h0 = "\<lparr>arrays = (\<lambda>a. [])(0 := scannerResults st), fresh = 1\<rparr>"
  have f: "0 < fresh ?h0" by simp
  have r: "arrays ?h0 0 = scannerResults st" by simp
  show ?thesis
    using exportUpload_result(1)[OF f] exportStandard_result(1)[OF f]
    unfolding r
    by (simp add: downloadScannerExcel_def Let_def case_prod_beta)
qed

lemma downloadScannerExcel_state:
  "snd (downloadScannerExcel xlsx templateType st) = st"
proof -
  let ?h0 = "\<lparr>arrays = (\<lambda>a. [])(0 := scannerResults st), fresh = 1\<rparr>"
  have f: "0 < fresh ?h0" by simp
  have r: "arrays ?h0 0 = scannerResults st" by simp
  show ?thesis
    using exportUpload_result(2)[OF f] exportStandard_result(2)[OF f]
    unfolding r
    by (simp add: downloadScannerExcel_def Let_def case_prod_beta)
qed

section \<open>Cells of the sheets\<close>

lemma valueAt_setStyle [simp]: "valueAt (setStyle ws ref st) x = valueAt ws x"
  by (simp add: valueAt_def setStyle_def split: option.splits)

lemma valueAt_setFormat [simp]: "valueAt (setFormat ws ref fmt) x = valueAt ws x"
  by (simp add: valueAt_def setFormat_def split: option.splits)

lemma valueAt_cols [simp]: "valueAt (ws\<lparr>cols := w\<rparr>) x = valueAt ws x"
  by (simp add: valueAt_def)

lemma valueAt_sheet_add_aoa:
  "valueAt (sheet_add_aoa ws aoa (r0, c0)) (r, c) =
     (if r0 \<le> r \<and> r - r0 < length aoa \<and> c0 \<le> c \<and> c - c0 < length (aoa ! (r - r0))
         \<and> aoa ! (r - r0) ! (c - c0) \<noteq> VUndefined
      then Some (aoa ! (r - r0) ! (c - c0)) else valueAt ws (r, c))"
  by (simp add: valueAt_def sheet_add_aoa_def)

lemma valueAt_emptySheet [simp]: "valueAt emptySheet x = None"
  by (simp add: valueAt_def emptySheet_def)

lemma valueAt_empty [simp]: "valueAt (aoa_to_sheet []) x = None"
  by (simp add: aoa_to_sheet_def sheet_add_aoa_def emptySheet_def valueAt_def split: prod.splits)

lemma valueAt_foldl_setStyle [simp]:
  "valueAt (foldl (\<lambda>w ref. setStyle w (f ref) st) ws refs) x = valueAt ws x"
  by (induction refs arbitrary: ws) simp_all

lemma valueAt_styleDataRow [simp]: "valueAt (styleDataRow ws idx) x = valueAt ws x"
proof -
  have "valueAt (foldl (\<lambda>w c. setStyle w (r, c) dataStyle) w0 cs) x = valueAt w0 x" for r w0 cs
    using valueAt_foldl_setStyle[where f = "\<lambda>c. (r, c)"] by simp
  then show ?thesis by (simp add: styleDataRow_def Let_def)
qed

lemma valueAt_foldl_styleDataRow [simp]:
  "valueAt (foldl styleDataRow ws idxs) x = valueAt ws x"
  by (induction idxs arbitrary: ws) simp_all

lemma valueAt_foldl_setFormat [simp]:
  "valueAt (foldl (\<lambda>w R. if p R then setFormat w (f R) fmt else w) ws rs) x = valueAt ws x"
  by (induction rs arbitrary: ws) simp_all

lemma valueAt_add_rows:
  "valueAt (sheet_add_aoa ws aoa (r0, 0)) (r, c) =
     (if r0 \<le> r \<and> r < r0 + length aoa \<and> c < length (aoa ! (r - r0))
         \<and> aoa ! (r - r0) ! c \<noteq> VUndefined
      then Some (aoa ! (r - r0) ! c) else valueAt ws (r, c))"
  by (auto simp add: valueAt_sheet_add_aoa)

lemma valueAt_foldl_headerStyle [simp]:
  "valueAt (foldl (\<lambda>w ref. setStyle w ref headerStyle) ws refs) x = valueAt ws x"
  using valueAt_foldl_setStyle[where f = "\<lambda>ref. ref"] by simp

text \<open>The cells of a year's sheet in row 1 (the title) and row 4 (the headers).\<close>

lemma buildSheet_title:
  "valueAt (buildSheet year sheetData) (0, c) = (if c = 0 then Some (VStr (titleName sheetData)) else None)"
  unfolding buildSheet_def Let_def
  by (simp add: valueAt_add_rows del: foldl_Cons)

lemma length_standardHeaders [simp]: "length standardHeaders = 5"
  by (simp add: standardHeaders_def)

lemma buildSheet_headers:
  "valueAt (buildSheet year sheetData) (3, c) = (if c < 5 then Some (VStr (standardHeaders ! c)) else None)"
  unfolding buildSheet_def Let_def
  by (simp add: valueAt_add_rows del: foldl_Cons)

lemma length_uploadRow [simp]: "length (uploadRow row) = 5"
  by (simp add: uploadRow_def)

lemma uploadRow_defined: "c < 5 \<Longrightarrow> uploadRow row ! c \<noteq> VUndefined"
  by (simp add: uploadRow_def nth_Cons' )

lemma uploadSheet_row:
  "i < length sortedResults \<Longrightarrow>
   valueAt (uploadSheet sortedResults) (Suc i, c) = (if c < 5 then Some (uploadRow (sortedResults ! i) ! c) else None)"
  unfolding uploadSheet_def Let_def aoa_to_sheet_def
  by (simp add: valueAt_add_rows uploadRow_defined del: upt_Suc)

section \<open>The header row of a year's sheet (claim C8)\<close>

lemma years_exampleLedger: "years exampleLedger = [''2023'', ''2024'']"
  by code_simp

lemma scannerResults_session [simp]: "scannerResults (session client files ledger) = ledger"
  by (simp add: session_def)

lemma sheets_of_standard:
  "writtenSheets (fst (downloadScannerExcel True standard st))
     = map (yearSheet (scannerResults st)) (years (scannerResults st))"
  by (simp add: downloadScannerExcel_effects writtenSheets_def)

text \<open>
  Claim C8, as the code has it: in every sheet that the standard template writes, row 4
  (index 3) holds exactly five cells, PAYMENT DATE, PERIOD, RECEIPT NUMBER, TAX TYPE and
  AMOUNT [N], in that order. The fifth header is \<open>AMOUNT [N]\<close>, not \<open>AMOUNT\<close>.
\<close>

theorem standard_sheet_headers:
  "\<forall>(sheetName, ws) \<in> set (writtenSheets (fst (downloadScannerExcel xlsx standard st))).
     map (\<lambda>c. valueAt ws (3, c)) [0..<5]
       = [Some (VStr ''PAYMENT DATE''), Some (VStr ''PERIOD''), Some (VStr ''RECEIPT NUMBER''),
          Some (VStr ''TAX TYPE''), Some (VStr ''AMOUNT [N]'')]
     \<and> (\<forall>c. 5 \<le> c \<longrightarrow> valueAt ws (3, c) = None)"
proof -
  have row: "map (\<lambda>c. valueAt (buildSheet year sheetData) (3, c)) [0..<5]
       = [Some (VStr ''PAYMENT DATE''), Some (VStr ''PERIOD''), Some (VStr ''RECEIPT NUMBER''),
          Some (VStr ''TAX TYPE''), Some (VStr ''AMOUNT [N]'')]" for year sheetData
  proof -
    have u: "[0..<5] = [0, 1, 2, 3, 4]" by code_simp
    show ?thesis unfolding u by (simp add: buildSheet_headers standardHeaders_def)
  qed
  have beyond: "valueAt (buildSheet year sheetData) (3, c) = None" if "5 \<le> c" for year sheetData c
    using that by (simp add: buildSheet_headers)
  show ?thesis
    by (auto simp add: downloadScannerExcel_effects writtenSheets_def yearSheet_def row beyond
          simp del: upt_Suc)
qed

text \<open>The example ledger gives two sheets, for 2023 and 2024, and both have that row.\<close>

theorem standard_sheet_headers_witness:
  "map fst (writtenSheets (fst (downloadScannerExcel True standard (session True [] exampleLedger))))
     = [''Remittance 2023'', ''Remittance 2024'']
   \<and> list_all (\<lambda>(sheetName, ws).
        map (\<lambda>c. valueAt ws (3, c)) [0..<5]
          = [Some (VStr ''PAYMENT DATE''), Some (VStr ''PERIOD''), Some (VStr ''RECEIPT NUMBER''),
             Some (VStr ''TAX TYPE''), Some (VStr ''AMOUNT [N]'')]
        \<and> valueAt ws (3, 5) = None)
      (writtenSheets (fst (downloadScannerExcel True standard (session True [] exampleLedger))))"
proof -
  have names: "map fst (writtenSheets (fst (downloadScannerExcel True standard (session True [] exampleLedger))))
     = [''Remittance 2023'', ''Remittance 2024'']"
    by (simp add: sheets_of_standard years_exampleLedger yearSheet_def)
  show ?thesis
    using names standard_sheet_headers[of True "session True [] exampleLedger"]
    by (simp add: list_all_iff case_prod_beta)
qed

text \<open>
  Claim C8 as it is written names the fifth header AMOUNT. In the first sheet written
  for the example ledger, cell E4 holds \<open>AMOUNT [N]\<close>.
\<close>

theorem amount_header_counterexample:
  "valueAt (snd (hd (writtenSheets (fst (downloadScannerExcel True standard (session True [] exampleLedger))))))
     (3, 4) = Some (VStr ''AMOUNT [N]'')
   \<and> valueAt (snd (hd (writtenSheets (fst (downloadScannerExcel True standard (session True [] exampleLedger))))))
     (3, 4) \<noteq> Some (VStr ''AMOUNT'')"
  by (simp add: sheets_of_standard years_exampleLedger yearSheet_def buildSheet_headers standardHeaders_def)

section \<open>Counting names and choosing the most frequent\<close>

lemma map_of_map_keyed:
  "map_of (map (\<lambda>(k, v). if k = key then (k, w) else (k, v)) acc) n
     = (if n = key then (case map_of acc n of None \<Rightarrow> None | Some v \<Rightarrow> Some w) else map_of acc n)"
  by (induction acc) auto

lemma map_fst_map_keyed:
  "map fst (map (\<lambda>(k, v). if k = key then (k, w) else (k, v)) acc) = map fst acc"
  by (induction acc) auto

text \<open>Counting with increment: the keys in order of first appearance, each with its count.\<close>

lemma increment_fold:
  "map fst (foldl increment [] ks) = firstSeen ks
   \<and> (\<forall>n. map_of (foldl increment [] ks) n = (if n \<in> set ks then Some (count_list ks n) else None))"
proof (induction ks rule: rev_induct)
  case Nil
  then show ?case by (simp add: firstSeen_def)
next
  case (snoc k ks)
  let ?acc = "foldl increment [] ks"
  have keys: "map fst ?acc = firstSeen ks"
    and look: "\<And>n. map_of ?acc n = (if n \<in> set ks then Some (count_list ks n) else None)"
    using snoc by simp_all
  show ?case
  proof (cases "k \<in> set ks")
    case True
    then have inc: "increment ?acc k
        = map (\<lambda>(k', v). if k' = k then (k', count_list ks k + 1) else (k', v)) ?acc"
      by (simp add: increment_def look)
    show ?thesis
      using True by (simp add: inc map_fst_map_keyed map_of_map_keyed keys look firstSeen_snoc del: map_map)
  next
    case False
    then have inc: "increment ?acc k = ?acc @ [(k, 1)]"
      by (simp add: increment_def look)
    show ?thesis
      using False by (auto simp add: inc keys look firstSeen_snoc map_add_def)
  qed
qed

lemma companyCounts_eq: "companyCounts rows = foldl increment [] (map countedName rows)"
  by (simp add: companyCounts_def countedName_def foldl_map)

lemma companyFrequency_eq:
  "companyFrequency rows = foldl increment [] (filter (\<lambda>n. n \<noteq> []) (map companyName rows))"
proof -
  have "foldl (\<lambda>acc row. if companyName row \<noteq> [] then increment acc (companyName row) else acc) acc rows
        = foldl increment acc (filter (\<lambda>n. n \<noteq> []) (map companyName rows))" for acc
    by (induction rows arbitrary: acc) simp_all
  then show ?thesis by (simp add: companyFrequency_def)
qed

text \<open>
  The reduce with \<open>moreFrequent\<close> returns a key of greatest count, and of several such
  the last: the keys before it count no more, the keys after it count less.
\<close>

lemma moreFrequent_fold:
  assumes "\<forall>k \<in> set (a # ks). map_of cnt k = Some (c k)"
  shows "\<exists>before after. a # ks = before @ foldl (moreFrequent cnt) a ks # after
           \<and> (\<forall>n \<in> set before. c n \<le> c (foldl (moreFrequent cnt) a ks))
           \<and> (\<forall>n \<in> set after. c n < c (foldl (moreFrequent cnt) a ks))"
  using assms
proof (induction ks arbitrary: a)
  case Nil
  show ?case by (intro exI[of _ "[]"]) simp
next
  case (Cons k ks)
  let ?f = "moreFrequent cnt"
  show ?case
  proof (cases "c k < c a")
    case True
    then have step: "?f a k = a" using Cons.prems by (simp add: moreFrequent_def)
    define r where "r = foldl ?f a ks"
    have fr: "foldl ?f a (k # ks) = r" by (simp add: step r_def)
    from Cons.prems have "\<forall>k \<in> set (a # ks). map_of cnt k = Some (c k)" by simp
    from Cons.IH[OF this] obtain before after where
      sp: "a # ks = before @ r # after"
      and b: "\<forall>n \<in> set before. c n \<le> c r"
      and af: "\<forall>n \<in> set after. c n < c r" unfolding r_def by blast
    show ?thesis
    proof (cases before)
      case Nil
      then have ra: "r = a" and ak: "after = ks" using sp by simp_all
      have "a # k # ks = [] @ r # (k # after)" using ra ak by simp
      moreover have "\<forall>n \<in> set (k # after). c n < c r" using af True ra by simp
      ultimately show ?thesis unfolding fr by (metis empty_iff list.set(1))
    next
      case (Cons a' before')
      then have a': "a' = a" and rest: "ks = before' @ r # after" using sp by simp_all
      have "c a \<le> c r" using b Cons a' by simp
      then have kk: "c k \<le> c r" using True by simp
      have "a # k # ks = (a # k # before') @ r # after" using rest by simp
      moreover have "\<forall>n \<in> set (a # k # before'). c n \<le> c r" using b Cons a' kk by simp
      ultimately show ?thesis unfolding fr using af by blast
    qed
  next
    case False
    then have step: "?f a k = k" using Cons.prems by (simp add: moreFrequent_def)
    define r where "r = foldl ?f k ks"
    have fr: "foldl ?f a (k # ks) = r" by (simp add: step r_def)
    from Cons.prems have "\<forall>k' \<in> set (k # ks). map_of cnt k' = Some (c k')" by simp
    from Cons.IH[OF this] obtain before after where
      sp: "k # ks = before @ r # after"
      and b: "\<forall>n \<in> set before. c n \<le> c r"
      and af: "\<forall>n \<in> set after. c n < c r" unfolding r_def by blast
    have "c k \<le> c r"
    proof (cases before)
      case Nil then show ?thesis using sp by simp
    next
      case (Cons k' before') then show ?thesis using sp b by simp
    qed
    then have ak: "c a \<le> c r" using False by simp
    have "a # k # ks = (a # before) @ r # after" using sp by simp
    moreover have "\<forall>n \<in> set (a # before). c n \<le> c r" using b ak by simp
    ultimately show ?thesis unfolding fr using af by blast
  qed
qed

lemma titleName_empty: "titleName [] = ''NASD PLC''"
  by (simp add: titleName_def companyCounts_def objectKeys_def keyOrder_def)

lemma titleName_last_most_frequent:
  assumes "sheetData \<noteq> []"
  shows "\<exists>before after. nameOrder sheetData = before @ titleName sheetData # after
           \<and> (\<forall>n \<in> set before. occurrences n sheetData \<le> occurrences (titleName sheetData) sheetData)
           \<and> (\<forall>n \<in> set after. occurrences n sheetData < occurrences (titleName sheetData) sheetData)"
proof -
  let ?names = "map countedName sheetData"
  let ?cnt = "companyCounts sheetData"
  let ?c = "\<lambda>n. occurrences n sheetData"
  let ?f = "moreFrequent ?cnt"
  have keys: "objectKeys ?cnt = nameOrder sheetData"
    using increment_fold[of ?names] by (simp add: objectKeys_def nameOrder_def companyCounts_eq)
  have look: "map_of ?cnt n = (if n \<in> set ?names then Some (?c n) else None)" for n
    using increment_fold[of ?names] by (simp add: companyCounts_eq occurrences_def)
  have kset: "set (nameOrder sheetData) = set ?names" by (simp add: nameOrder_def)
  have all: "\<forall>k \<in> set (nameOrder sheetData). map_of ?cnt k = Some (?c k)"
    using look kset by simp
  have ne: "nameOrder sheetData \<noteq> []" using kset assms by (metis list.map_disc_iff set_empty)
  have t: "titleName sheetData = foldl ?f ''NASD PLC'' (nameOrder sheetData)"
    by (simp add: titleName_def keys)
  show ?thesis
  proof (cases "''NASD PLC'' \<in> set ?names")
    case True
    then have "\<forall>k \<in> set (''NASD PLC'' # nameOrder sheetData). map_of ?cnt k = Some (?c k)"
      using all look by simp
    from moreFrequent_fold[OF this] obtain before after where
      sp: "''NASD PLC'' # nameOrder sheetData = before @ titleName sheetData # after"
      and b: "\<forall>n \<in> set before. ?c n \<le> ?c (titleName sheetData)"
      and af: "\<forall>n \<in> set after. ?c n < ?c (titleName sheetData)"
      unfolding t by blast
    show ?thesis
    proof (cases before)
      case Nil
      then have tn: "titleName sheetData = ''NASD PLC''" and an: "after = nameOrder sheetData"
        using sp by (metis append_Nil list.inject)+
      have "''NASD PLC'' \<in> set after" using True kset an by simp
      then have "?c ''NASD PLC'' < ?c (titleName sheetData)" using af by blast
      then show ?thesis using tn by simp
    next
      case (Cons a before')
      then have "nameOrder sheetData = before' @ titleName sheetData # after"
        using sp by (metis append_Cons list.inject)
      moreover have "\<forall>n \<in> set before'. ?c n \<le> ?c (titleName sheetData)" using b Cons by simp
      ultimately show ?thesis using af by blast
    qed
  next
    case False
    obtain k ks where ks: "nameOrder sheetData = k # ks" using ne by (cases "nameOrder sheetData") auto
    have "?f ''NASD PLC'' k = k" using False look by (simp add: moreFrequent_def)
    then have t': "titleName sheetData = foldl ?f k ks" by (simp add: t ks)
    have "\<forall>k' \<in> set (k # ks). map_of ?cnt k' = Some (?c k')" using all ks by simp
    from moreFrequent_fold[OF this] show ?thesis unfolding t' ks by blast
  qed
qed

section \<open>The title of a year's sheet (claim C7)\<close>

lemma yearBucket_nonempty: "year \<in> set (years rows) \<Longrightarrow> yearBucket rows year \<noteq> []"
  by (auto simp add: years_def yearBucket_def filter_empty_conv)

lemma arraySort_nonempty: "xs \<noteq> [] \<Longrightarrow> arraySort cmp xs \<noteq> []"
  by (metis arraySort_set set_empty)


lemma years_tiedLedger: "years tiedLedger = [''2023'']"
  by code_simp

lemma sorted_tiedLedger: "arraySort compareDates (yearBucket tiedLedger ''2023'') = tiedLedger"
  by code_simp

lemma title_tiedLedger: "titleName tiedLedger = ''Beta''"
  by code_simp



section \<open>The month look-up of the upload template\<close>

lemma lower_char_not_upper: "lower_char c \<notin> set upper_letters"
proof (cases "map_of (zip upper_letters lower_letters) c")
  case None
  moreover have "map fst (zip upper_letters lower_letters) = upper_letters"
    by (simp add: upper_letters_def lower_letters_def)
  ultimately have "c \<notin> set upper_letters"
    by (metis map_of_eq_None_iff set_map)
  then show ?thesis using None by (simp add: lower_char_def)
next
  case (Some l)
  then have "l \<in> set lower_letters" by (meson map_of_SomeD set_zip_rightD)
  then have "l \<notin> set upper_letters" by (auto simp: lower_letters_def upper_letters_def)
  then show ?thesis using Some by (simp add: lower_char_def)
qed

lemma monthTable_eq: "monthTable = drop 12 monthMap"
  by code_simp

lemma title_keys: "\<forall>k \<in> fst ` set (take 12 monthMap). k \<noteq> [] \<and> hd k \<in> set upper_letters"
  by (simp add: monthMap_def upper_letters_def)

lemma lower_lookup: "map_of monthMap (toLowerCase m) = fullMonthName m"
proof -
  have "toLowerCase m \<notin> fst ` set (take 12 monthMap)"
  proof
    assume a: "toLowerCase m \<in> fst ` set (take 12 monthMap)"
    then have "toLowerCase m \<noteq> []" and "hd (toLowerCase m) \<in> set upper_letters"
      using title_keys by blast+
    then show False
      using lower_char_not_upper by (cases m) (simp_all add: toLowerCase_def)
  qed
  then have "map_of (take 12 monthMap) (toLowerCase m) = None"
    by (simp add: map_of_eq_None_iff)
  moreover have "monthMap = take 12 monthMap @ drop 12 monthMap" by simp
  ultimately have "map_of monthMap (toLowerCase m) = map_of (drop 12 monthMap) (toLowerCase m)"
    by (metis map_add_def map_of_append option.simps(4))
  then show ?thesis by (simp add: fullMonthName_def monthTable_eq)
qed

lemma exact_lookup: "map_of monthMap m = Some v \<Longrightarrow> fullMonthName m = Some v"
proof -
  assume "map_of monthMap m = Some v"
  then have "(m, v) \<in> set monthMap" by (rule map_of_SomeD)
  then have "list_ex (\<lambda>(k, w). m = k \<and> v = w) monthMap"
    by (auto simp: list_ex_iff)
  moreover have "list_all (\<lambda>(k, w). fullMonthName k = Some w) monthMap"
    by code_simp
  ultimately show ?thesis
    by (auto simp: list_ex_iff list_all_iff)
qed

text \<open>
  The look-up of the month in \<open>periodVal\<close> finds the full name for a three-letter
  abbreviation in any letter case, and otherwise gives the first part in upper case.
\<close>

lemma monthMap_lookup:
  "(case map_of monthMap m of
      Some v \<Rightarrow> v
    | None \<Rightarrow> (case map_of monthMap (toLowerCase m) of Some v \<Rightarrow> v | None \<Rightarrow> toUpperCase m))
   = (case fullMonthName m of Some n \<Rightarrow> n | None \<Rightarrow> toUpperCase m)"
proof (cases "map_of monthMap m")
  case None
  then show ?thesis by (simp add: lower_lookup)
next
  case (Some v)
  then show ?thesis using exact_lookup[OF Some] by simp
qed

section \<open>The rows of the upload template (claim C4)\<close>

lemma arraySort_length [simp]: "length (arraySort cmp xs) = length xs"
proof -
  have ins: "length (insertBy cmp x ys) = Suc (length ys)" for x ys
    by (induction ys) auto
  show ?thesis unfolding arraySort_def by (induction xs) (simp_all add: ins)
qed

lemma periodVal_two_parts:
  "split_hyphen (paymentPeriod row) = [m, p] \<Longrightarrow>
   periodVal row =
     (if str_includes (toUpperCase (displayTaxType row)) ''PAYE''
      then (case fullMonthName m of Some n \<Rightarrow> n | None \<Rightarrow> toUpperCase m)
      else (if length p = 2 then ''20'' @ p else p))"
  by (simp add: periodVal_def isPaye_def Let_def monthMap_lookup)

lemma periodVal_fallback:
  "length (split_hyphen (paymentPeriod row)) \<noteq> 2 \<Longrightarrow>
   periodVal row =
     (if str_includes (toUpperCase (displayTaxType row)) ''PAYE''
      then toUpperCase (monthLong (newDate (paymentDate row)))
      else optNumToString (getFullYear (newDate (paymentDate row))))"
  by (cases "split_hyphen (paymentPeriod row)" rule: list.exhaust)
     (auto simp add: periodVal_def isPaye_def Let_def split: list.splits)




section \<open>The loop of processReceipts\<close>

lemma startsWith_append [simp]: "startsWith (p @ s) p"
  by (induction p) simp_all

lemma str_includes_append: "str_includes s p \<Longrightarrow> str_includes (a @ s) p"
  by (induction a) simp_all

lemma str_includes_infix: "str_includes (a @ p @ b) p"
proof -
  have "str_includes (p @ b) p" by (cases "p @ b") (use startsWith_append[of p b] in \<open>auto\<close>)
  then show ?thesis by (rule str_includes_append)
qed

lemma str_includes_suffix: "str_includes (a @ p) p"
  using str_includes_infix[of a p "[]"] by simp

lemma str_includes_suffix2: "str_includes (a @ b @ c @ p) p"
  using str_includes_suffix[of "a @ b @ c" p] by simp

lemma message_names:
  "str_includes (msgText (tooLargeMessage file)) (name file)"
  "str_includes (msgText (wrongTypeMessage file)) (name file)"
  "str_includes (msgText (failedMessage file e)) (name file)"
  "str_includes (msgText (duplicateMessage result file)) (name file)"
  "str_includes (msgText (successMessage file)) (name file)"
  unfolding tooLargeMessage_def wrongTypeMessage_def failedMessage_def duplicateMessage_def
    successMessage_def message.simps
  by (rule str_includes_suffix str_includes_infix str_includes_suffix2)+

lemma message_types [simp]:
  "msgType (tooLargeMessage file) = warning"
  "msgType (wrongTypeMessage file) = warning"
  "msgType (failedMessage file e) = error"
  "msgType (duplicateMessage result file) = warning"
  "msgType (successMessage file) = success"
  by (simp_all add: tooLargeMessage_def wrongTypeMessage_def failedMessage_def duplicateMessage_def
        successMessage_def)

lemma processLoop_append:
  "processLoop (fs @ [f]) st = processFile f (processLoop fs st)"
  by (induction fs arbitrary: st) simp_all

lemma earlierKeys_snoc:
  "j \<le> length fs \<Longrightarrow> earlierKeys (fs @ [f]) j = earlierKeys fs j"
  by (simp add: earlierKeys_def)

lemma expectedMessage_snoc:
  "j < length fs \<Longrightarrow> expectedMessage (fs @ [f]) j = expectedMessage fs j"
  by (simp add: expectedMessage_def nth_append earlierKeys_snoc cong: sum.case_cong if_cong)

lemma keepFirst_snoc:
  "keepFirst key (xs @ [x]) = (if key x \<in> key ` set (keepFirst key xs) then keepFirst key xs
                               else keepFirst key xs @ [x])"
  by (simp add: keepFirst_def)

lemma keepFirst_Nil [simp]: "keepFirst key [] = []"
  by (simp add: keepFirst_def)

lemma keepFirst_keys: "key ` set (keepFirst key xs) = key ` set xs"
  by (induction xs rule: rev_induct) (auto simp add: keepFirst_snoc)

lemma keepFirst_distinct: "distinct (map key (keepFirst key xs))"
  by (induction xs rule: rev_induct) (auto simp add: keepFirst_snoc)

lemma keepFirst_subset: "set (keepFirst key xs) \<subseteq> set xs"
  by (induction xs rule: rev_induct) (auto simp add: keepFirst_snoc)

lemma map_filter_snoc:
  "List.map_filter f (xs @ [x]) = List.map_filter f xs @ (case f x of None \<Rightarrow> [] | Some y \<Rightarrow> [y])"
  by (simp add: List.map_filter_def split: option.splits)

text \<open>
  The loop from the empty state: the keys of all extractions, the first extraction of
  each key, and for every file its expected message.
\<close>

lemma processLoop_result:
  "processLoop files ({}, [], [])
     = (uniqueKey ` set (List.map_filter extraction files),
        keepFirst uniqueKey (List.map_filter extraction files),
        map (expectedMessage files) [0..<length files])"
proof (induction files rule: rev_induct)
  case Nil
  then show ?case by (simp add: List.map_filter_def)
next
  case (snoc f fs)
  let ?E = "List.map_filter extraction fs"
  have msgs: "map (expectedMessage (fs @ [f])) [0..<length fs] = map (expectedMessage fs) [0..<length fs]"
    by (simp add: expectedMessage_snoc)
  have keys: "set (earlierKeys (fs @ [f]) (length fs)) = uniqueKey ` set ?E"
    by (simp add: earlierKeys_def)
  have k2: "uniqueKey ` set (keepFirst uniqueKey ?E) = uniqueKey ` set ?E"
    by (rule keepFirst_keys)
  have step: "processFile f (uniqueKey ` set ?E, keepFirst uniqueKey ?E, M)
      = (uniqueKey ` set (List.map_filter extraction (fs @ [f])),
         keepFirst uniqueKey (List.map_filter extraction (fs @ [f])),
         M @ [expectedMessage (fs @ [f]) (length fs)])" for M
    unfolding processFile_def expectedMessage_def map_filter_snoc keepFirst_snoc k2
    by (auto simp add: extraction_def eligible_def keys Let_def keepFirst_snoc k2 split: sum.splits)
  show ?case
    unfolding processLoop_append snoc.IH step
    by (simp add: msgs)
qed

section \<open>One message per file (claim C9)\<close>

lemma processReceipts_with_client:
  "ai st \<Longrightarrow>
   processReceipts st =
     st\<lparr>scannerIsLoading := False,
        scannerResults := arraySort compareDates (keepFirst uniqueKey (List.map_filter extraction (selectedFiles st))),
        scannerMessages := map (expectedMessage (selectedFiles st)) [0..<length (selectedFiles st)]\<rparr>"
  by (simp add: processReceipts_def processLoop_result)

lemma admitted_eq: "admitted files = keepFirst uniqueKey (List.map_filter extraction files)"
  by (simp add: admitted_def processLoop_result)

lemma expectedMessage_name:
  "str_includes (msgText (expectedMessage files j)) (name (files ! j))"
  by (simp add: expectedMessage_def Let_def message_names split: sum.splits)

text \<open>
  Claim C9, as the code has it: when the client exists, \<^verbatim>\<open>processReceipts\<close> leaves exactly
  one message per selected file, in the order of the files: the \<open>j\<close>-th message is the one
  due to the \<open>j\<close>-th file (too large, wrong media type, failed, duplicate, or success), it
  carries the file's name, and its tag is success, warning or error.
\<close>

theorem one_message_per_document:
  assumes "ai st"
  shows "length (scannerMessages (processReceipts st)) = length (selectedFiles st)
         \<and> (\<forall>j < length (selectedFiles st).
               scannerMessages (processReceipts st) ! j = expectedMessage (selectedFiles st) j
               \<and> str_includes (msgText (scannerMessages (processReceipts st) ! j)) (name (selectedFiles st ! j))
               \<and> msgType (scannerMessages (processReceipts st) ! j) \<in> {success, warning, error})"
proof -
  have t: "m \<in> {success, warning, error}" for m :: msg_type by (cases m) simp_all
  show ?thesis
    using assms t by (simp add: processReceipts_with_client expectedMessage_name)
qed

text \<open>
  Claim C9 as it is written speaks of every batch. Without a client the function returns
  before the loop: two files are selected and the only message is the client's error.
\<close>

theorem no_client_counterexample:
  "length (selectedFiles (session False collidingFiles [])) = 2
   \<and> scannerMessages (processReceipts (session False collidingFiles []))
       = [\<lparr>msgText = ''AI client not initialized.'', msgType = error\<rparr>]"
  by (simp add: processReceipts_def session_def collidingFiles_def)

lemma messages_exampleFiles:
  "map (expectedMessage exampleFiles) [0..<8]
     = [successMessage (exampleFiles ! 0), tooLargeMessage (exampleFiles ! 1),
        successMessage (exampleFiles ! 2),
        duplicateMessage (receipt ''Other'' ''2024-04-04'' ''Mar-24'' '' R1 '' ''VAT'' 100
                            \<lparr>paymentDateDisplay := ''04/04/2024''\<rparr>) (exampleFiles ! 3),
        wrongTypeMessage (exampleFiles ! 4), failedMessage (exampleFiles ! 5) ''quota exceeded'',
        successMessage (exampleFiles ! 6), successMessage (exampleFiles ! 7)]"
  by code_simp


text \<open>
  The theorem at eight example files, among them one too large, one of a wrong type, one
  whose call fails and one duplicate.
\<close>

theorem one_message_per_document_witness:
  "ai (session True exampleFiles [])
   \<and> length (selectedFiles (session True exampleFiles [])) = 8
   \<and> length (scannerMessages (processReceipts (session True exampleFiles []))) = 8
   \<and> map msgType (scannerMessages (processReceipts (session True exampleFiles [])))
       = [success, warning, success, warning, warning, error, success, success]
   \<and> list_all (\<lambda>j. str_includes (msgText (scannerMessages (processReceipts (session True exampleFiles [])) ! j))
                        (name (exampleFiles ! j))) [0..<8]"
proof -
  have a: "ai (session True exampleFiles [])" by (simp add: session_def)
  have f: "selectedFiles (session True exampleFiles []) = exampleFiles" by (simp add: session_def)
  have l: "length exampleFiles = 8" by (simp add: exampleFiles_def)
  note t = one_message_per_document[OF a, unfolded f l]
  have "scannerMessages (processReceipts (session True exampleFiles [])) = map (expectedMessage exampleFiles) [0..<8]"
    using t by (intro nth_equalityI) simp_all
  then have ty: "map msgType (scannerMessages (processReceipts (session True exampleFiles [])))
       = [success, warning, success, warning, warning, error, success, success]"
    by (simp add: messages_exampleFiles del: upt_Suc)
  have len: "length (scannerMessages (processReceipts (session True exampleFiles []))) = 8"
    using t by simp
  have inc: "list_all (\<lambda>j. str_includes (msgText (scannerMessages (processReceipts (session True exampleFiles [])) ! j))
                        (name (exampleFiles ! j))) [0..<8]"
    using t by (auto simp add: list_all_iff simp del: upt_Suc)
  show ?thesis
    using a len ty inc by (simp add: f l del: upt_Suc)
qed

section \<open>The deduplication key\<close>

lemma digit_val_digit_char: "d < 10 \<Longrightarrow> digit_val (digit_char d) = d"
  by (simp add: digit_val_def digit_char_def)

lemma hyphen_code: "of_char (CHR ''-'') = (45::nat)"
  by simp

lemma digit_char_not_hyphen: "d < 10 \<Longrightarrow> digit_char d \<noteq> CHR ''-''"
proof
  assume d: "d < 10" and e: "digit_char d = CHR ''-''"
  have "of_char (digit_char d) = 48 + d" using d by (simp add: digit_char_def)
  then show False using e by simp
qed

lemma show_nat_no_hyphen: "0 \<le> n \<Longrightarrow> CHR ''-'' \<notin> set (show_nat n)"
proof (induction n rule: show_nat.induct)
  case (1 n)
  show ?case
  proof (cases "n < 10")
    case True
    then have "nat n < 10" using 1(2) by simp
    then have "digit_char (nat n) \<noteq> CHR ''-''" by (rule digit_char_not_hyphen)
    then show ?thesis using True by (subst show_nat.simps) auto
  next
    case False
    have "nat (n mod 10) < 10" by simp
    then have "digit_char (nat (n mod 10)) \<noteq> CHR ''-''" by (rule digit_char_not_hyphen)
    moreover have "CHR ''-'' \<notin> set (show_nat (n div 10))" using 1 False by simp
    ultimately show ?thesis using False by (subst show_nat.simps) auto
  qed
qed

lemma digitsValue_snoc: "digitsValue (s @ [c]) = 10 * digitsValue s + int (digit_val c)"
  by (simp add: digitsValue_def)

lemma digitsValue_show_nat: "0 \<le> n \<Longrightarrow> digitsValue (show_nat n) = n"
proof (induction n rule: show_nat.induct)
  case (1 n)
  show ?case
  proof (cases "n < 10")
    case True
    then have "nat n < 10" using 1(2) by simp
    then show ?thesis
      using True 1(2) by (subst show_nat.simps) (simp add: digitsValue_def digit_val_digit_char)
  next
    case False
    have "digitsValue (show_nat (n div 10)) = n div 10" using 1 False by simp
    then show ?thesis
      using False by (subst show_nat.simps) (simp add: digitsValue_snoc digit_val_digit_char)
  qed
qed

lemma split_at_last_hyphen:
  assumes "a @ CHR ''-'' # x = b @ CHR ''-'' # y" and "CHR ''-'' \<notin> set x" and "CHR ''-'' \<notin> set y"
  shows "a = b \<and> x = y"
proof -
  have "takeWhile (\<lambda>c. c \<noteq> CHR ''-'') (rev x @ CHR ''-'' # rev a)
          = rev x @ takeWhile (\<lambda>c. c \<noteq> CHR ''-'') (CHR ''-'' # rev a)"
    by (rule takeWhile_append2) (use assms(2) in auto)
  then have "takeWhile (\<lambda>c. c \<noteq> CHR ''-'') (rev (a @ CHR ''-'' # x)) = rev x" by simp
  moreover have "takeWhile (\<lambda>c. c \<noteq> CHR ''-'') (rev y @ CHR ''-'' # rev b)
          = rev y @ takeWhile (\<lambda>c. c \<noteq> CHR ''-'') (CHR ''-'' # rev b)"
    by (rule takeWhile_append2) (use assms(3) in auto)
  then have "takeWhile (\<lambda>c. c \<noteq> CHR ''-'') (rev (b @ CHR ''-'' # y)) = rev y" by simp
  ultimately have "x = y" using assms(1) by (metis rev_rev_ident)
  then show ?thesis using assms(1) by simp
qed

text \<open>The key decides the trimmed receipt number and, for amounts that are not negative, the amount.\<close>

lemma uniqueKey_same:
  "trim (receiptNumber a) = trim (receiptNumber b) \<Longrightarrow> amount a = amount b \<Longrightarrow> uniqueKey a = uniqueKey b"
  by (simp add: uniqueKey_def)

lemma uniqueKey_inj:
  assumes "uniqueKey a = uniqueKey b" and "0 \<le> amount a" and "0 \<le> amount b"
  shows "trim (receiptNumber a) = trim (receiptNumber b) \<and> amount a = amount b"
proof -
  have e: "trim (receiptNumber a) @ CHR ''-'' # show_nat (amount a)
         = trim (receiptNumber b) @ CHR ''-'' # show_nat (amount b)"
    using assms by (simp add: uniqueKey_def numToString_def)
  from split_at_last_hyphen[OF e] assms(2,3)
  have "trim (receiptNumber a) = trim (receiptNumber b)" and s: "show_nat (amount a) = show_nat (amount b)"
    by (simp_all add: show_nat_no_hyphen)
  moreover have "amount a = amount b"
    using s digitsValue_show_nat assms(2,3) by metis
  ultimately show ?thesis by simp
qed

section \<open>Deduplication by the key (claim C1)\<close>

lemma keepFirst_append: "\<exists>zs. keepFirst key (xs @ ys) = keepFirst key xs @ zs"
proof (induction ys rule: rev_induct)
  case Nil
  then show ?case by simp
next
  case (snoc y ys)
  then obtain zs where "keepFirst key (xs @ ys) = keepFirst key xs @ zs" by blast
  then show ?case
    using keepFirst_snoc[of key "xs @ ys" y] by (cases "key y \<in> key ` set (keepFirst key (xs @ ys))") auto
qed

lemma keepFirst_member:
  assumes "key x \<notin> key ` set pre"
  shows "x \<in> set (keepFirst key (pre @ x # post))"
proof -
  have "keepFirst key (pre @ [x]) = keepFirst key pre @ [x]"
    using assms by (simp add: keepFirst_snoc keepFirst_keys)
  moreover obtain zs where "keepFirst key ((pre @ [x]) @ post) = keepFirst key (pre @ [x]) @ zs"
    using keepFirst_append by blast
  ultimately show ?thesis by simp
qed

lemma insertBy_set [simp]: "set (insertBy cmp x ys) = insert x (set ys)"
  by (induction ys) auto

lemma insertBy_distinct_map:
  "distinct (map f (insertBy cmp x ys)) \<longleftrightarrow> f x \<notin> f ` set ys \<and> distinct (map f ys)"
  by (induction ys) auto

lemma arraySort_distinct_map: "distinct (map f (arraySort cmp xs)) \<longleftrightarrow> distinct (map f xs)"
proof -
  have s: "set (foldr (insertBy cmp) xs []) = set xs" for xs
    using arraySort_set[of cmp xs] by (simp add: arraySort_def)
  show ?thesis
    unfolding arraySort_def
    by (induction xs) (simp_all add: insertBy_distinct_map s)
qed

lemma map_filter_split:
  assumes "j < length files" and "extraction (files ! j) = Some r"
  shows "List.map_filter extraction files
           = List.map_filter extraction (take j files) @ r # List.map_filter extraction (drop (Suc j) files)"
proof -
  have "files = take j files @ files ! j # drop (Suc j) files"
    using assms(1) by (rule id_take_nth_drop)
  then have "List.map_filter extraction files
      = List.map_filter extraction (take j files @ files ! j # drop (Suc j) files)" by simp
  then show ?thesis using assms(2) by (simp add: List.map_filter_def)
qed

lemma set_map_filter: "set (List.map_filter f xs) = {y. \<exists>x \<in> set xs. f x = Some y}"
  by (induction xs) (auto simp add: List.map_filter_def)

lemma set_take_nth: "set (take j xs) = {xs ! i | i. i < j \<and> i < length xs}"
proof -
  have "set (take j xs) = {take j xs ! i | i. i < length (take j xs)}" by (rule set_conv_nth)
  also have "\<dots> = {xs ! i | i. i < j \<and> i < length xs}"
  proof -
    have "take j xs ! i = xs ! i" if "i < j" for i using that by simp
    then show ?thesis by (auto simp add: min_def) (metis nth_take)+
  qed
  finally show ?thesis .
qed

lemma earlierKeys_member:
  "key \<in> set (earlierKeys files j) \<longleftrightarrow>
     (\<exists>i r. i < j \<and> i < length files \<and> extraction (files ! i) = Some r \<and> uniqueKey r = key)"
  unfolding earlierKeys_def set_map set_map_filter set_take_nth by blast

lemma expectedMessage_extracted:
  "extraction (files ! j) = Some r \<Longrightarrow>
   expectedMessage files j =
     (if uniqueKey r \<in> set (earlierKeys files j) then duplicateMessage r (files ! j)
      else successMessage (files ! j))"
  by (auto simp add: expectedMessage_def extraction_def eligible_def Let_def split: sum.splits if_splits)





section \<open>The order of the ledger (claim C2)\<close>

lemma compareDates_valid:
  "validDate a \<Longrightarrow> validDate b \<Longrightarrow> compareDates a b = timeOf a - timeOf b"
  by (auto simp add: validDate_def compareDates_def timeOf_def)

lemma insertBy_insort_key:
  "validDate x \<Longrightarrow> \<forall>y \<in> set ys. validDate y \<Longrightarrow>
   insertBy compareDates x ys = insort_key timeOf x ys"
  by (induction ys) (simp_all add: compareDates_valid)

text \<open>On records with valid dates the sort is the stable sort by time.\<close>

lemma arraySort_sort_key:
  "\<forall>x \<in> set xs. validDate x \<Longrightarrow> arraySort compareDates xs = sort_key timeOf xs"
proof (induction xs)
  case Nil
  then show ?case by (simp add: arraySort_def)
next
  case (Cons x xs)
  then have ih: "foldr (insertBy compareDates) xs [] = sort_key timeOf xs"
    by (simp add: arraySort_def)
  have "\<forall>y \<in> set (sort_key timeOf xs). validDate y" using Cons.prems by simp
  then have "insertBy compareDates x (sort_key timeOf xs) = insort_key timeOf x (sort_key timeOf xs)"
    using Cons.prems by (intro insertBy_insort_key) simp_all
  then show ?case by (simp add: arraySort_def ih)
qed

lemma arraySort_idem:
  assumes "\<forall>x \<in> set xs. validDate x"
  shows "arraySort compareDates (arraySort compareDates xs) = arraySort compareDates xs"
proof -
  have v: "\<forall>x \<in> set (arraySort compareDates xs). validDate x" using assms by simp
  show ?thesis
    unfolding arraySort_sort_key[OF v] unfolding arraySort_sort_key[OF assms]
    by (simp add: sort_key_id_if_sorted)
qed

text \<open>
  Claim C2, as the code has it: for a batch processed with a client in which every
  admitted record has a payment date that parses, the ledger holds the admitted records
  in non-decreasing order of payment time, records of equal time in their order of
  admission; and the upload template, which sorts a copy of the ledger with the same
  comparator again, writes its rows in the order of the ledger.
\<close>

theorem ledger_sorted_stable:
  assumes "ai st" and "\<forall>r \<in> set (admitted (selectedFiles st)). validDate r"
  shows "sorted (map timeOf (scannerResults (processReceipts st)))
         \<and> set (scannerResults (processReceipts st)) = set (admitted (selectedFiles st))
         \<and> length (scannerResults (processReceipts st)) = length (admitted (selectedFiles st))
         \<and> (\<forall>t. filter (\<lambda>r. timeOf r = t) (scannerResults (processReceipts st))
                  = filter (\<lambda>r. timeOf r = t) (admitted (selectedFiles st)))
         \<and> writtenSheets (fst (downloadScannerExcel True upload (processReceipts st)))
             = [(''Upload'', uploadSheet (scannerResults (processReceipts st)))]
         \<and> arraySort compareDates (scannerResults (processReceipts st)) = scannerResults (processReceipts st)"
proof -
  have l: "scannerResults (processReceipts st) = arraySort compareDates (admitted (selectedFiles st))"
    using assms(1) by (simp add: processReceipts_with_client admitted_eq)
  have s: "arraySort compareDates (admitted (selectedFiles st)) = sort_key timeOf (admitted (selectedFiles st))"
    using assms(2) by (rule arraySort_sort_key)
  have i: "arraySort compareDates (scannerResults (processReceipts st)) = scannerResults (processReceipts st)"
    unfolding l using assms(2) by (rule arraySort_idem)
  have u: "writtenSheets (fst (downloadScannerExcel True upload (processReceipts st)))
             = [(''Upload'', uploadSheet (scannerResults (processReceipts st)))]"
    by (simp add: downloadScannerExcel_effects writtenSheets_def i)
  show ?thesis
    using i u unfolding l s by (simp add: sort_key_stable)
qed

lemma admitted_exampleFiles:
  "admitted exampleFiles
     = [(receipt ''Acme Corp!'' ''2024-02-01'' ''Jan-24'' ''R1'' ''PAYE'' 100)\<lparr>paymentDateDisplay := ''01/02/2024''\<rparr>,
        (receipt ''Beta'' ''2024-01-01'' ''Dec-23'' ''R2'' ''Value added tax'' 50)\<lparr>paymentDateDisplay := ''01/01/2024''\<rparr>,
        (receipt ''Acme Corp!'' ''2024-03-01'' ''Feb-24'' ''R3'' ''paye'' 10)\<lparr>paymentDateDisplay := ''01/03/2024''\<rparr>,
        (receipt ''Gamma'' ''2024-02-01'' ''Jan-24'' ''R4'' ''PAYE'' 70)\<lparr>paymentDateDisplay := ''01/02/2024''\<rparr>]"
  unfolding admitted_eq by code_simp

text \<open>
  The theorem at the example files: R1 and R4 are both of 1 February 2024 and stay in
  their order of admission.
\<close>

theorem ledger_sorted_stable_witness:
  "ai (session True exampleFiles [])
   \<and> list_all validDate (admitted (selectedFiles (session True exampleFiles [])))
   \<and> map receiptNumber (admitted (selectedFiles (session True exampleFiles []))) = [''R1'', ''R2'', ''R3'', ''R4'']
   \<and> map paymentDate (admitted (selectedFiles (session True exampleFiles [])))
       = [''2024-02-01'', ''2024-01-01'', ''2024-03-01'', ''2024-02-01'']
   \<and> sorted (map timeOf (scannerResults (processReceipts (session True exampleFiles []))))
   \<and> map receiptNumber (filter (\<lambda>r. timeOf r = 1706745600000)
                           (scannerResults (processReceipts (session True exampleFiles []))))
       = [''R1'', ''R4'']
   \<and> writtenSheets (fst (downloadScannerExcel True upload (processReceipts (session True exampleFiles []))))
       = [(''Upload'', uploadSheet (scannerResults (processReceipts (session True exampleFiles []))))]"
proof -
  let ?S = "session True exampleFiles []"
  have a: "ai ?S" and f: "selectedFiles ?S = exampleFiles" by (simp_all add: session_def)
  have v: "list_all validDate (admitted exampleFiles)"
    unfolding admitted_exampleFiles by code_simp
  then have h: "\<forall>r \<in> set (admitted (selectedFiles ?S)). validDate r"
    by (simp add: f list_all_iff)
  note t = ledger_sorted_stable[OF a h, unfolded f]
  have n: "map receiptNumber (admitted exampleFiles) = [''R1'', ''R2'', ''R3'', ''R4'']"
    and d: "map paymentDate (admitted exampleFiles)
       = [''2024-02-01'', ''2024-01-01'', ''2024-03-01'', ''2024-02-01'']"
    unfolding admitted_exampleFiles by code_simp+
  have "map receiptNumber (filter (\<lambda>r. timeOf r = 1706745600000) (admitted exampleFiles)) = [''R1'', ''R4'']"
    unfolding admitted_exampleFiles by code_simp
  then have e: "map receiptNumber (filter (\<lambda>r. timeOf r = 1706745600000)
                           (scannerResults (processReceipts ?S))) = [''R1'', ''R4'']"
    using t by simp
  show ?thesis
    using a v n d e t by (simp add: f)
qed

text \<open>
  Claim C2 as it is written speaks of every accepted batch. A record without payment date
  is admitted like any other, and the comparator answers \<^verbatim>\<open>NaN\<close> for every pair it is in,
  which the sort takes for equal: of three records admitted as February, undated, January,
  none is moved, and the ledger has February before January.
\<close>

theorem undated_record_counterexample:
  "map paymentDate (scannerResults (processReceipts (session True undatedFiles [])))
     = [''2024-02-01'', [], ''2024-01-01'']
   \<and> getTime (newDate ''2024-01-01'') = Some 1704067200000
   \<and> getTime (newDate ''2024-02-01'') = Some 1706745600000
   \<and> getTime (newDate []) = None"
proof -
  have a: "ai (session True undatedFiles [])" "selectedFiles (session True undatedFiles []) = undatedFiles"
    by (simp_all add: session_def)
  have "map paymentDate (arraySort compareDates (keepFirst uniqueKey (List.map_filter extraction undatedFiles)))
     = [''2024-02-01'', [], ''2024-01-01'']" by code_simp
  moreover have "getTime (newDate ''2024-01-01'') = Some 1704067200000"
    "getTime (newDate ''2024-02-01'') = Some 1706745600000" "getTime (newDate []) = None"
    by code_simp+
  ultimately show ?thesis by (simp add: processReceipts_with_client a)
qed

section \<open>Exports leave the ledger as it is (claim C10)\<close>

lemma exportUpload_copy:
  "ledger < fresh h \<Longrightarrow>
   arrays (snd (exportUpload ledger h)) (fresh h) = arraySort compareDates (arrays h ledger)"
  by (simp add: exportUpload_def alloc_def sortInPlace_def Let_def)

text \<open>
  Claim C10: an export, in either mode and with or without the spreadsheet library,
  leaves the state as it was, the ledger with its contents and order included. In the
  store, for a ledger at any allocated address: the upload template leaves the ledger's
  array as it is and sorts the copy it has allocated, and the standard template, which
  sorts the arrays of its years in place, leaves the ledger's array as it is.
\<close>

theorem export_leaves_ledger:
  "snd (downloadScannerExcel xlsx templateType st) = st
   \<and> (\<forall>ledger h. ledger < fresh h \<longrightarrow>
         arrays (snd (exportUpload ledger h)) ledger = arrays h ledger
         \<and> arrays (snd (exportUpload ledger h)) (fresh h) = arraySort compareDates (arrays h ledger)
         \<and> arrays (snd (exportStandard ledger h)) ledger = arrays h ledger)"
  using downloadScannerExcel_state exportUpload_result(2) exportUpload_copy exportStandard_result(2)
  by simp

text \<open>
  The theorem at a ledger that is not in date order: after the export the ledger is still
  in its own order, and the copy at the new address is sorted.
\<close>

theorem export_leaves_ledger_witness:
  "(0::nat) < fresh unsortedStore
   \<and> arrays unsortedStore 0 = rev exampleLedger
   \<and> arrays (snd (exportUpload 0 unsortedStore)) 0 = rev exampleLedger
   \<and> arrays (snd (exportUpload 0 unsortedStore)) 1 = exampleLedger
   \<and> arrays (snd (exportStandard 0 unsortedStore)) 0 = rev exampleLedger
   \<and> snd (downloadScannerExcel True standard (session True [] (rev exampleLedger)))
       = session True [] (rev exampleLedger)"
proof -
  have f: "(0::nat) < fresh unsortedStore" "fresh unsortedStore = 1"
    and a: "arrays unsortedStore 0 = rev exampleLedger"
    by (simp_all add: unsortedStore_def)
  have s: "arraySort compareDates (rev exampleLedger) = exampleLedger" by code_simp
  note t = export_leaves_ledger[of True standard "session True [] (rev exampleLedger)"]
  from t f have "arrays (snd (exportUpload 0 unsortedStore)) 0 = arrays unsortedStore 0
         \<and> arrays (snd (exportUpload 0 unsortedStore)) (fresh unsortedStore)
             = arraySort compareDates (arrays unsortedStore 0)
         \<and> arrays (snd (exportStandard 0 unsortedStore)) 0 = arrays unsortedStore 0"
    by blast
  then show ?thesis using t f a s by simp
qed

section \<open>Export of an empty ledger (claim C5)\<close>

lemma length_uploadHeaders [simp]: "length uploadHeaders = 5"
  by (simp add: uploadHeaders_def)

lemma uploadSheet_header:
  "valueAt (uploadSheet sortedResults) (0, c) = (if c < 5 then Some (VStr (uploadHeaders ! c)) else None)"
  unfolding uploadSheet_def Let_def aoa_to_sheet_def
  by (simp add: valueAt_add_rows del: upt_Suc)

lemma uploadSheet_empty:
  "valueAt (uploadSheet []) (r, c) = (if r = 0 \<and> c < 5 then Some (VStr (uploadHeaders ! c)) else None)"
proof (cases "r = 0")
  case True
  then show ?thesis by (simp add: uploadSheet_header)
next
  case False
  then show ?thesis
    unfolding uploadSheet_def Let_def aoa_to_sheet_def
    by (simp add: valueAt_add_rows del: upt_Suc)
qed

lemma filename_empty: "filename [] = ''UnknownCompany_Remittance_Schedule.xlsx''"
  by code_simp




end
